theory Spec2Isabelle
  imports Complex_Main "HOL-Library.Multiset"
begin

section \<open>The combinatorial graph and the routing order\<close>

text \<open>
  A \<^verbatim>\<open>CombNode\<close> is known by its position in the graph's node list: a pointer to a node
  is that index. The node keeps its adjacent CombEdges in clockwise order
  (\<^verbatim>\<open>n->pl().getEdgeOrdering().getOrderedSet()\<close>); the CombEdges of the graph are the
  edges adjacent to its nodes. A \<^verbatim>\<open>CombEdge\<close> knows its two end nodes; two pointers to
  the same edge are equal records. The classes of \<^verbatim>\<open>octi/combgraph\<close> and
  \<^verbatim>\<open>util::graph::Edge::getOtherNd\<close> are not among the sources; the fields below are the
  ones \<^verbatim>\<open>Octilinearizer.cpp\<close> reads.
\<close>

record CombEdge =
  efr :: nat
  eto :: nat
  eid :: nat

record CombNode =
  geom :: "real \<times> real"
  edgeOrdering :: "CombEdge list"

type_synonym CombGraph = "CombNode list"

definition getNds :: "CombGraph \<Rightarrow> nat list" where
  "getNds cg = [0..<length cg]"

definition getOtherNd :: "CombEdge \<Rightarrow> nat \<Rightarrow> nat" where
  "getOtherNd e n = (if efr e = n then eto e else efr e)"

definition getOrderedSet :: "CombGraph \<Rightarrow> nat \<Rightarrow> CombEdge list" where
  "getOrderedSet cg n = (if n < length cg then edgeOrdering (cg ! n) else [])"

definition getEdgs :: "CombGraph \<Rightarrow> CombEdge list" where
  "getEdgs cg = concat (map edgeOrdering cg)"

text \<open>
  \<^verbatim>\<open>NodePQ\<close> is a \<^verbatim>\<open>std::priority_queue\<close> of nodes under a comparator that is not
  among the sources (the spec orders by degree and breaks ties by id). The queue is the
  list of its elements, \<^verbatim>\<open>top\<close> is a greatest element under the comparator \<^verbatim>\<open>cmp\<close>,
  which is a parameter, and \<^verbatim>\<open>pop\<close> removes it.
\<close>

fun pqMax :: "('a \<Rightarrow> 'a \<Rightarrow> bool) \<Rightarrow> 'a \<Rightarrow> 'a list \<Rightarrow> 'a" where
  "pqMax cmp m [] = m"
| "pqMax cmp m (y # ys) = pqMax cmp (if cmp m y then y else m) ys"

definition pqTop :: "('a \<Rightarrow> 'a \<Rightarrow> bool) \<Rightarrow> 'a list \<Rightarrow> 'a" where
  "pqTop cmp q = pqMax cmp (hd q) (tl q)"

definition pqPop :: "('a \<Rightarrow> 'a \<Rightarrow> bool) \<Rightarrow> 'a list \<Rightarrow> 'a list" where
  "pqPop cmp q = remove1 (pqTop cmp q) q"

text \<open>
  \<^verbatim>\<open>std::random_shuffle\<close> draws from \<^verbatim>\<open>rand()\<close>. The random source is the stream
  \<^verbatim>\<open>rand k\<close> of the numbers \<^verbatim>\<open>rand()\<close> returns, and the state is the number of
  draws made so far. The shuffle is the exchange loop of the GNU library: element i is
  exchanged with element \<^verbatim>\<open>rand() % (i + 1)\<close>; every permutation arises from some
  stream.
\<close>

definition swapStep :: "(nat \<Rightarrow> nat) \<Rightarrow> nat \<Rightarrow> 'a list \<times> nat \<Rightarrow> 'a list \<times> nat" where
  "swapStep rand i st =
     (let xs = fst st; k = snd st; j = rand k mod (i + 1)
      in (xs[i := xs ! j, j := xs ! i], k + 1))"

definition random_shuffle :: "(nat \<Rightarrow> nat) \<Rightarrow> 'a list \<times> nat \<Rightarrow> 'a list \<times> nat" where
  "random_shuffle rand st = fold (swapStep rand) [1..<length (fst st)] st"

text \<open>
  The local variables of \<^verbatim>\<open>Octilinearizer::getOrdering\<close>: the queue \<^verbatim>\<open>dangling\<close>,
  the sets \<^verbatim>\<open>settled\<close> and \<^verbatim>\<open>done\<close>, the vector \<^verbatim>\<open>order\<close>, and the state of the
  random source.
\<close>

record OrdState =
  dangling :: "nat list"
  settledSet :: "nat set"
  doneSet :: "CombEdge set"
  orderSeq :: "CombEdge list"
  rnd :: nat

fun visitEdges :: "nat \<Rightarrow> CombEdge list \<Rightarrow> OrdState \<Rightarrow> OrdState" where
  "visitEdges n [] st = st"
| "visitEdges n (ee # es) st =
     (if ee \<in> doneSet st then visitEdges n es st
      else visitEdges n es
             (st\<lparr>doneSet := insert ee (doneSet st),
                 dangling := dangling st @ [getOtherNd ee n],
                 orderSeq := orderSeq st @ [ee]\<rparr>))"

definition settleNext :: "CombGraph \<Rightarrow> (nat \<Rightarrow> nat) \<Rightarrow> bool \<Rightarrow> nat \<Rightarrow> OrdState \<Rightarrow> OrdState" where
  "settleNext cg rand randr n st =
     (let odSet = (getOrderedSet cg n, rnd st);
          odSet = (if randr then random_shuffle rand odSet else odSet);
          st = visitEdges n (fst odSet) (st\<lparr>rnd := snd odSet\<rparr>)
      in st\<lparr>settledSet := insert n (settledSet st)\<rparr>)"

text \<open>
  The inner loop runs until the queue is empty. It ends because a node that is settled
  anew either marks a new edge as done or leaves the queue shorter; the lemmas up to
  the definition are what the termination proof needs.
\<close>

lemma pqMax_in: "pqMax cmp m ys \<in> insert m (set ys)"
  by (induction ys arbitrary: m) auto

lemma pqTop_in: "q \<noteq> [] \<Longrightarrow> pqTop cmp q \<in> set q"
  using pqMax_in [of cmp "hd q" "tl q"] by (cases q) (auto simp: pqTop_def)

lemma set_pqPop: "set q \<subseteq> insert (pqTop cmp q) (set (pqPop cmp q))"
  unfolding pqPop_def by (metis in_set_remove1 insertCI subsetI)

lemma length_pqPop: "q \<noteq> [] \<Longrightarrow> length (pqPop cmp q) < length q"
  by (simp add: pqPop_def length_remove1 pqTop_in)

lemma mset_swapStep:
  "i < length (fst st) \<Longrightarrow> mset (fst (swapStep rand i st)) = mset (fst st)"
proof -
  assume i: "i < length (fst st)"
  have "rand (snd st) mod (i + 1) < i + 1" by simp
  with i have j: "rand (snd st) mod (i + 1) < length (fst st)" by linarith
  show ?thesis using mset_swap [OF j i] by (simp add: swapStep_def Let_def)
qed

lemma length_swapStep: "length (fst (swapStep rand i st)) = length (fst st)"
  by (simp add: swapStep_def Let_def)

lemma mset_fold_swapStep:
  "\<forall>i \<in> set is. i < length (fst st) \<Longrightarrow> mset (fst (fold (swapStep rand) is st)) = mset (fst st)"
proof (induction "is" arbitrary: st)
  case Nil
  then show ?case by simp
next
  case (Cons i "is")
  have "\<forall>i' \<in> set is. i' < length (fst (swapStep rand i st))"
    using Cons.prems by (simp add: length_swapStep)
  from Cons.IH [OF this] show ?case using Cons.prems by (simp add: mset_swapStep)
qed

lemma mset_random_shuffle: "mset (fst (random_shuffle rand st)) = mset (fst st)"
  unfolding random_shuffle_def by (rule mset_fold_swapStep) simp

lemma set_random_shuffle: "set (fst (random_shuffle rand (xs, k))) = set xs"
  using mset_random_shuffle [of rand "(xs, k)"] by (metis fst_conv set_mset_mset)

lemma visitEdges_doneSet: "doneSet (visitEdges n es st) = doneSet st \<union> set es"
  by (induction es arbitrary: st) auto

lemma visitEdges_settled: "settledSet (visitEdges n es st) = settledSet st"
  by (induction es arbitrary: st) auto

lemma visitEdges_dangling_same:
  "set es \<subseteq> doneSet st \<Longrightarrow> dangling (visitEdges n es st) = dangling st"
  by (induction es arbitrary: st) auto

lemma visitEdges_order:
  "set (orderSeq st) = doneSet st \<Longrightarrow> distinct (orderSeq st) \<Longrightarrow>
   set (orderSeq (visitEdges n es st)) = doneSet (visitEdges n es st)
   \<and> distinct (orderSeq (visitEdges n es st))"
  by (induction es arbitrary: st) auto

lemma getOrderedSet_subset: "set (getOrderedSet cg n) \<subseteq> set (getEdgs cg)"
  by (auto simp: getOrderedSet_def getEdgs_def intro: nth_mem)

lemma settleNext_doneSet:
  "doneSet (settleNext cg rand randr n st) = doneSet st \<union> set (getOrderedSet cg n)"
  by (simp add: settleNext_def Let_def visitEdges_doneSet set_random_shuffle)

lemma settleNext_settled: "settledSet (settleNext cg rand randr n st) = insert n (settledSet st)"
  by (simp add: settleNext_def Let_def visitEdges_settled)

lemma settleNext_dangling_same:
  "set (getOrderedSet cg n) \<subseteq> doneSet st \<Longrightarrow>
   dangling (settleNext cg rand randr n st) = dangling st"
  by (simp add: settleNext_def Let_def visitEdges_dangling_same set_random_shuffle)

lemma settleNext_order:
  "set (orderSeq st) = doneSet st \<Longrightarrow> distinct (orderSeq st) \<Longrightarrow>
   set (orderSeq (settleNext cg rand randr n st)) = doneSet (settleNext cg rand randr n st)
   \<and> distinct (orderSeq (settleNext cg rand randr n st))"
  using visitEdges_order [of "st\<lparr>rnd := r\<rparr>" for r]
  by (simp add: settleNext_def Let_def)

function danglingLoop ::
  "CombGraph \<Rightarrow> (nat \<Rightarrow> nat \<Rightarrow> bool) \<Rightarrow> (nat \<Rightarrow> nat) \<Rightarrow> bool \<Rightarrow> OrdState \<Rightarrow> OrdState" where
  "danglingLoop cg cmp rand randr st =
     (if dangling st = [] then st
      else (let n = pqTop cmp (dangling st);
                st = st\<lparr>dangling := pqPop cmp (dangling st)\<rparr>
            in if n \<in> settledSet st then danglingLoop cg cmp rand randr st
               else danglingLoop cg cmp rand randr (settleNext cg rand randr n st)))"
  by pat_completeness auto
termination
proof (relation "measures [\<lambda>(cg, cmp, rand, randr, st). card (set (getEdgs cg) - doneSet st),
                           \<lambda>(cg, cmp, rand, randr, st). length (dangling st)]", goal_cases)
  case 1
  show ?case by simp
next
  case (2 cg cmp rand randr st n st')
  then show ?case by (simp add: length_pqPop)
next
  case (3 cg cmp rand randr st n st')
  let ?new = "set (getOrderedSet cg n)"
  show ?case
  proof (cases "?new \<subseteq> doneSet st'")
    case True
    then have "doneSet (settleNext cg rand randr n st') = doneSet st'"
      by (auto simp: settleNext_doneSet)
    moreover have "dangling (settleNext cg rand randr n st') = dangling st'"
      using True by (rule settleNext_dangling_same)
    ultimately show ?thesis using 3 by (simp add: length_pqPop)
  next
    case False
    then obtain e where e: "e \<in> ?new" "e \<notin> doneSet st'" by auto
    have "set (getEdgs cg) - doneSet (settleNext cg rand randr n st')
          \<subset> set (getEdgs cg) - doneSet st'"
      using e getOrderedSet_subset [of cg n] by (auto simp: settleNext_doneSet)
    then have "card (set (getEdgs cg) - doneSet (settleNext cg rand randr n st'))
               < card (set (getEdgs cg) - doneSet st')"
      by (simp add: psubset_card_mono)
    then show ?thesis using 3 by simp
  qed
qed


declare danglingLoop.simps [simp del]

function globalLoop ::
  "CombGraph \<Rightarrow> (nat \<Rightarrow> nat \<Rightarrow> bool) \<Rightarrow> (nat \<Rightarrow> nat) \<Rightarrow> bool \<Rightarrow> nat list \<Rightarrow> OrdState \<Rightarrow> OrdState" where
  "globalLoop cg cmp rand randr globalPq st =
     (if globalPq = [] then st
      else (let n = pqTop cmp globalPq;
                globalPq = pqPop cmp globalPq;
                st = danglingLoop cg cmp rand randr (st\<lparr>dangling := dangling st @ [n]\<rparr>)
            in globalLoop cg cmp rand randr globalPq st))"
  by pat_completeness auto
termination
  by (relation "measure (\<lambda>(cg, cmp, rand, randr, globalPq, st). length globalPq)")
    (simp_all add: length_pqPop)

declare globalLoop.simps [simp del]

text \<open>
  \<^verbatim>\<open>getOrdering(cg, randr)\<close>: the order, and the state of the random source after it.
\<close>

definition getOrdering ::
  "CombGraph \<Rightarrow> (nat \<Rightarrow> nat \<Rightarrow> bool) \<Rightarrow> (nat \<Rightarrow> nat) \<Rightarrow> nat \<Rightarrow> bool \<Rightarrow> CombEdge list \<times> nat" where
  "getOrdering cg cmp rand seed randr =
     (let st = globalLoop cg cmp rand randr (getNds cg)
                 \<lparr>dangling = [], settledSet = {}, doneSet = {}, orderSeq = [], rnd = seed\<rparr>
      in (orderSeq st, rnd st))"

section \<open>The base graph and the candidate cells of an edge\<close>

text \<open>
  Modelled from the spec: the classes \<^verbatim>\<open>BaseGraph\<close>, \<^verbatim>\<open>GridGraph\<close> and
  \<^verbatim>\<open>OctiGridGraph\<close> are not under src/. A grid cell (\<^verbatim>\<open>GridNode*\<close>) and a grid edge
  (\<^verbatim>\<open>GridEdge*\<close>) are numbers. Of the base graph the model keeps what
  \<^verbatim>\<open>Octilinearizer.cpp\<close> reads and writes: the cell size, the penalties, the cells with
  their geographic points and parents, the closed cells, the cell a CombNode is settled
  on (\<^verbatim>\<open>getSettled\<close>; \<^verbatim>\<open>isSettled\<close> says whether there is one: "a cell may be settled
  (its center is assigned to a CombNode)"), for each cell whether it is open as a source
  or as a target sink and at which additional cost, and the cost of each grid edge (the
  field \<^verbatim>\<open>_c\<close> of \<^verbatim>\<open>GridEdgePL\<close>, which \<^verbatim>\<open>cost()\<close> reads and \<^verbatim>\<open>setCost\<close> writes).
  \<^verbatim>\<open>SettledPos\<close> is a \<^verbatim>\<open>std::map\<close> from CombNodes to grid cells.
\<close>

type_synonym SettledPos = "nat \<rightharpoonup> nat"

record Penalties =
  p_0 :: real
  p_45 :: real
  p_90 :: real
  p_135 :: real

record BaseGraph =
  cellSize :: real
  pens :: Penalties
  grNds :: "nat list"
  grGeom :: "nat \<Rightarrow> real \<times> real"
  grParent :: "nat \<rightharpoonup> nat"
  closedNds :: "nat set"
  settledNds :: "(nat \<times> nat) list"
  sinkFr :: "nat \<rightharpoonup> real"
  sinkTo :: "nat \<rightharpoonup> real"
  edgCost :: "nat \<Rightarrow> real"

text \<open>
  \<^verbatim>\<open>util::geo::dist\<close> of two points is their Euclidean distance.
\<close>

definition distGeo :: "real \<times> real \<Rightarrow> real \<times> real \<Rightarrow> real" where
  "distGeo p q = sqrt ((fst p - fst q)\<^sup>2 + (snd p - snd q)\<^sup>2)"

definition cmbGeom :: "CombGraph \<Rightarrow> nat \<Rightarrow> real \<times> real" where
  "cmbGeom cg n = geom (cg ! n)"

definition getSettled :: "BaseGraph \<Rightarrow> nat \<Rightarrow> nat option" where
  "getSettled gg cmbNd = map_of (settledNds gg) cmbNd"

definition isSettled :: "BaseGraph \<Rightarrow> nat \<Rightarrow> bool" where
  "isSettled gg cmbNd \<longleftrightarrow> getSettled gg cmbNd \<noteq> None"

text \<open>
  Modelled from the spec: \<^verbatim>\<open>BaseGraph::getGrNdCands\<close> is not under src/. The spec gives
  \<^verbatim>\<open>getGrNdCands(cmbNd, maxDist)\<close> as "all unsettled cells within maxDist of the
  combinatorial node's geographic point".
\<close>

definition getGrNdCands :: "CombGraph \<Rightarrow> BaseGraph \<Rightarrow> nat \<Rightarrow> real \<Rightarrow> nat set" where
  "getGrNdCands cg gg cmbNd maxDis =
     set (filter (\<lambda>n. n \<notin> snd ` set (settledNds gg)
                       \<and> distGeo (grGeom gg n) (cmbGeom cg cmbNd) \<le> maxDis) (grNds gg))"

text \<open>
  \<^verbatim>\<open>Octilinearizer::getCands\<close>: the settled cell, else the parent of the pre-settled
  position when it exists and is not closed, else the candidates around the node.
\<close>

definition getCands :: "CombGraph \<Rightarrow> nat \<Rightarrow> SettledPos \<Rightarrow> BaseGraph \<Rightarrow> real \<Rightarrow> nat set" where
  "getCands cg cmbNd preSettled gg maxDis =
     (case getSettled gg cmbNd of
        Some s \<Rightarrow> {s}
      | None \<Rightarrow>
          (case preSettled cmbNd of
             Some p \<Rightarrow>
               (case grParent gg p of
                  Some nd \<Rightarrow> if nd \<notin> closedNds gg then {nd} else {}
                | None \<Rightarrow> {})
           | None \<Rightarrow> getGrNdCands cg gg cmbNd maxDis))"

text \<open>
  \<^verbatim>\<open>Octilinearizer::getRtPair\<close>. The two result sets are declared before the loop and
  never cleared in it: each pass inserts into them. \<^verbatim>\<open>passes\<close> is the loop counter i.
\<close>

record RtState =
  rtFr :: "nat set"
  rtTo :: "nat set"
  rtDis :: real
  passes :: nat

definition nearerFr :: "CombGraph \<Rightarrow> BaseGraph \<Rightarrow> nat \<Rightarrow> nat \<Rightarrow> nat \<Rightarrow> bool" where
  "nearerFr cg gg frCmbNd toCmbNd iNd \<longleftrightarrow>
     distGeo (grGeom gg iNd) (cmbGeom cg frCmbNd) < distGeo (grGeom gg iNd) (cmbGeom cg toCmbNd)"

definition rtPass ::
  "CombGraph \<Rightarrow> nat \<Rightarrow> nat \<Rightarrow> SettledPos \<Rightarrow> BaseGraph \<Rightarrow> RtState \<Rightarrow> RtState" where
  "rtPass cg frCmbNd toCmbNd preSettled gg st =
     (let frCands = getCands cg frCmbNd preSettled gg (rtDis st);
          toCands = getCands cg toCmbNd preSettled gg (rtDis st);
          isect = frCands \<inter> toCands;
          frs = rtFr st \<union> (frCands - isect);
          tos = rtTo st \<union> (toCands - isect);
          frs = frs \<union> {iNd \<in> isect. nearerFr cg gg frCmbNd toCmbNd iNd};
          tos = tos \<union> {iNd \<in> isect. \<not> nearerFr cg gg frCmbNd toCmbNd iNd}
      in \<lparr>rtFr = frs, rtTo = tos,
          rtDis = rtDis st + real (passes st) * 2, passes = passes st + 1\<rparr>)"

function rtLoop ::
  "CombGraph \<Rightarrow> nat \<Rightarrow> nat \<Rightarrow> SettledPos \<Rightarrow> BaseGraph \<Rightarrow> RtState \<Rightarrow> RtState" where
  "rtLoop cg frCmbNd toCmbNd preSettled gg st =
     (if (rtFr st = {} \<or> rtTo st = {}) \<and> passes st < 10
      then rtLoop cg frCmbNd toCmbNd preSettled gg (rtPass cg frCmbNd toCmbNd preSettled gg st)
      else st)"
  by pat_completeness auto
termination
  by (relation "measure (\<lambda>(cg, frCmbNd, toCmbNd, preSettled, gg, st). 10 - passes st)")
    (auto simp: rtPass_def Let_def)

declare rtLoop.simps [simp del]

definition rtInit :: "BaseGraph \<Rightarrow> real \<Rightarrow> RtState" where
  "rtInit gg maxGrDist =
     \<lparr>rtFr = {}, rtTo = {}, rtDis = cellSize gg * maxGrDist, passes = 0\<rparr>"

definition getRtPair ::
  "CombGraph \<Rightarrow> nat \<Rightarrow> nat \<Rightarrow> SettledPos \<Rightarrow> BaseGraph \<Rightarrow> real \<Rightarrow> nat set \<times> nat set" where
  "getRtPair cg frCmbNd toCmbNd preSettled gg maxGrDist =
     (if getSettled gg frCmbNd \<noteq> None \<and> getSettled gg toCmbNd \<noteq> None
      then (getCands cg frCmbNd preSettled gg 0, getCands cg toCmbNd preSettled gg 0)
      else (let st = rtLoop cg frCmbNd toCmbNd preSettled gg (rtInit gg maxGrDist)
            in (rtFr st, rtTo st)))"

definition getRtPairPasses ::
  "CombGraph \<Rightarrow> nat \<Rightarrow> nat \<Rightarrow> SettledPos \<Rightarrow> BaseGraph \<Rightarrow> real \<Rightarrow> nat" where
  "getRtPairPasses cg frCmbNd toCmbNd preSettled gg maxGrDist =
     (if getSettled gg frCmbNd \<noteq> None \<and> getSettled gg toCmbNd \<noteq> None then 0
      else passes (rtLoop cg frCmbNd toCmbNd preSettled gg (rtInit gg maxGrDist)))"

section \<open>Routing one CombEdge\<close>

text \<open>
  A \<^verbatim>\<open>double\<close> that can be infinite is a \<^verbatim>\<open>dbl\<close>: a real number, one of the two
  infinities, or not-a-number, with the comparison of IEEE 754 and with the exact
  difference and sum of finite values. Edge costs, penalties and cost offsets are finite
  doubles and are the real numbers they denote. An arithmetic operation on doubles
  returns the rounded exact result: \<^verbatim>\<open>dround\<close> applies a rounding to a finite value.
\<close>

datatype dbl = Fin real | PInf | NInf | NaN

fun dless :: "dbl \<Rightarrow> dbl \<Rightarrow> bool" where
  "dless (Fin a) (Fin b) = (a < b)"
| "dless (Fin a) PInf = True"
| "dless NInf (Fin b) = True"
| "dless NInf PInf = True"
| "dless _ _ = False"

fun dminus :: "dbl \<Rightarrow> dbl \<Rightarrow> dbl" where
  "dminus (Fin a) (Fin b) = Fin (a - b)"
| "dminus NaN _ = NaN"
| "dminus _ NaN = NaN"
| "dminus PInf PInf = NaN"
| "dminus NInf NInf = NaN"
| "dminus PInf _ = PInf"
| "dminus NInf _ = NInf"
| "dminus (Fin a) PInf = NInf"
| "dminus (Fin a) NInf = PInf"

fun dplusr :: "dbl \<Rightarrow> real \<Rightarrow> dbl" where
  "dplusr (Fin a) b = Fin (a + b)"
| "dplusr x b = x"

fun dround :: "(real \<Rightarrow> real) \<Rightarrow> dbl \<Rightarrow> dbl" where
  "dround f (Fin a) = Fin (f a)"
| "dround f x = x"

text \<open>
  Two ways in which the C++ leaves the defined behaviour are values of the model:
  the exception \<^verbatim>\<open>NoEmbeddingFoundExc\<close>, and an undefined read (\<^verbatim>\<open>front()\<close> of an
  empty vector, an index read from a variable that was never assigned).
\<close>

datatype failure = NoEmbeddingFoundExc | UndefinedBehaviour

text \<open>
  Modelled from the spec: the class \<^verbatim>\<open>Drawing\<close> is not under src/. The spec's data
  model gives it the map from CombNodes to grid cells, the map from CombEdges to grid
  paths, and the cumulative score. A Drawing without any edge has the score infinity:
  the routing loop tests \<^verbatim>\<open>drawing->score() == std::numeric_limits<double>::infinity()\<close>
  before it routes an edge, the default Drawings of the workers are compared against a
  best score of infinity, and the spec's open question on the reduce is the case in which
  all workers return an infinite score. That is the score of \<^verbatim>\<open>Drawing()\<close>, of
  \<^verbatim>\<open>Drawing(gg)\<close> and of a Drawing after \<^verbatim>\<open>crumble()\<close> ("crumbled (reset)").
\<close>

record Drawing =
  score :: dbl
  ndToGrNd :: "nat \<rightharpoonup> nat"
  edgToPath :: "CombEdge \<rightharpoonup> nat list"

definition newDrawing :: Drawing where
  "newDrawing = \<lparr>score = PInf, ndToGrNd = Map.empty, edgToPath = Map.empty\<rparr>"

definition crumble :: "Drawing \<Rightarrow> Drawing" where
  "crumble d = newDrawing"

text \<open>
  The functions of the base graph, of \<^verbatim>\<open>Dijkstra\<close> and of \<^verbatim>\<open>Drawing\<close> that the
  routing calls and that are not among the sources are parameters, collected in one
  record. \<^verbatim>\<open>shortestPath\<close> stands for the call of \<^verbatim>\<open>Dijkstra::shortestPath\<close> with the
  heuristic and the cost function built from the cutoff and the geo penalties; it
  returns the edge list and the node list. \<^verbatim>\<open>fl\<close> is the rounding of the double
  arithmetic of the routing: the sum or difference the code computes is \<^verbatim>\<open>fl\<close> of the
  exact one. It is a parameter, so that what is proved of the routing holds whichever
  way the machine rounds; overflow to infinity is not modelled.
\<close>

type_synonym NodeCost = "real list"

type_synonym GeoPensMap = "CombEdge \<rightharpoonup> real list"

record RouteDeps =
  ndMovePen :: "nat \<Rightarrow> nat \<Rightarrow> real"
  topoBlockPen :: "BaseGraph \<Rightarrow> nat \<Rightarrow> nat \<Rightarrow> CombEdge \<Rightarrow> NodeCost"
  spacingPen :: "BaseGraph \<Rightarrow> nat \<Rightarrow> nat \<Rightarrow> CombEdge \<Rightarrow> NodeCost"
  nodeBendPen :: "BaseGraph \<Rightarrow> nat \<Rightarrow> CombEdge \<Rightarrow> NodeCost"
  addCostVec :: "nat \<Rightarrow> NodeCost \<Rightarrow> BaseGraph \<Rightarrow> BaseGraph"
  shortestPath :: "BaseGraph \<Rightarrow> nat set \<Rightarrow> nat set \<Rightarrow> dbl \<Rightarrow> (GeoPensMap \<times> CombEdge) option
                     \<Rightarrow> nat list \<times> nat list"
  drawingDraw :: "CombEdge \<Rightarrow> nat list \<Rightarrow> bool \<Rightarrow> BaseGraph \<Rightarrow> Drawing \<Rightarrow> Drawing"
  settleNd :: "nat \<Rightarrow> nat \<Rightarrow> BaseGraph \<Rightarrow> BaseGraph"
  settleEdg :: "nat \<Rightarrow> nat \<Rightarrow> CombEdge \<Rightarrow> BaseGraph \<Rightarrow> BaseGraph"
  isSecondary :: "nat \<Rightarrow> bool"
  edgParents :: "nat \<Rightarrow> nat \<times> nat"
  fl :: "real \<Rightarrow> real"

text \<open>
  Modelled from the spec: \<^verbatim>\<open>openSinkFr\<close>, \<^verbatim>\<open>openSinkTo\<close>, \<^verbatim>\<open>closeSinkFr\<close> and
  \<^verbatim>\<open>closeSinkTo\<close> of \<^verbatim>\<open>BaseGraph\<close> are not under src/. The spec: "mark cell n as
  a valid Dijkstra source/sink at the given additional cost (models displacement
  penalty); closeSinkFr/To reverses".
\<close>

definition openSinkFr :: "nat \<Rightarrow> real \<Rightarrow> BaseGraph \<Rightarrow> BaseGraph" where
  "openSinkFr n c gg = gg\<lparr>sinkFr := (sinkFr gg)(n \<mapsto> c)\<rparr>"

definition openSinkTo :: "nat \<Rightarrow> real \<Rightarrow> BaseGraph \<Rightarrow> BaseGraph" where
  "openSinkTo n c gg = gg\<lparr>sinkTo := (sinkTo gg)(n \<mapsto> c)\<rparr>"

definition closeSinkFr :: "nat \<Rightarrow> BaseGraph \<Rightarrow> BaseGraph" where
  "closeSinkFr n gg = gg\<lparr>sinkFr := (sinkFr gg)(n := None)\<rparr>"

definition closeSinkTo :: "nat \<Rightarrow> BaseGraph \<Rightarrow> BaseGraph" where
  "closeSinkTo n gg = gg\<lparr>sinkTo := (sinkTo gg)(n := None)\<rparr>"

text \<open>
  Modelled from the spec: the bodies of \<^verbatim>\<open>GridEdgePL::setCost\<close> and
  \<^verbatim>\<open>GridEdgePL::cost\<close> are not under src/; octi/basegraph/GridEdgePL.h declares them
  and the field \<^verbatim>\<open>_c\<close>. A grid edge has an effective cost, which \<^verbatim>\<open>setCost\<close> sets
  ("setCost mutates effective") and \<^verbatim>\<open>cost\<close> returns.
\<close>

definition setCost :: "nat \<Rightarrow> real \<Rightarrow> BaseGraph \<Rightarrow> BaseGraph" where
  "setCost e c gg = gg\<lparr>edgCost := (edgCost gg)(e := c)\<rparr>"

definition cost :: "BaseGraph \<Rightarrow> nat \<Rightarrow> real" where
  "cost gg e = edgCost gg e"

text \<open>
\<^verbatim>\<open>Octilinearizer::settleRes\<close> and \<^verbatim>\<open>Octilinearizer::writeNdCosts\<close>.
\<close>

definition settleRes ::
  "RouteDeps \<Rightarrow> nat \<Rightarrow> nat \<Rightarrow> BaseGraph \<Rightarrow> nat \<Rightarrow> nat \<Rightarrow> nat list \<Rightarrow> CombEdge \<Rightarrow> BaseGraph" where
  "settleRes deps frGrNd toGrNd gg from to res e =
     (let gg = settleNd deps toGrNd to gg;
          gg = settleNd deps frGrNd from gg
      in fold (\<lambda>f gg. if isSecondary deps f then gg
                       else settleEdg deps (fst (edgParents deps f)) (snd (edgParents deps f)) e gg)
           res gg)"

definition writeNdCosts :: "RouteDeps \<Rightarrow> nat \<Rightarrow> nat \<Rightarrow> CombEdge \<Rightarrow> BaseGraph \<Rightarrow> BaseGraph" where
  "writeNdCosts deps n origNode e g =
     (let c = topoBlockPen deps g n origNode e;
          c = map2 (+) c (spacingPen deps g n origNode e);
          c = map2 (+) c (nodeBendPen deps g n e)
      in addCostVec deps n c g)"

text \<open>
  The two loops that open the sinks. The state of each is the grid and the cost offset
  (\<^verbatim>\<open>costOffsetFrom\<close>, \<^verbatim>\<open>costOffsetTo\<close>), which the loop body assigns when the
  endpoint is not settled. A \<^verbatim>\<open>std::set<GridNode*>\<close> is iterated in ascending order.
\<close>

definition openFr :: "RouteDeps \<Rightarrow> nat \<Rightarrow> nat \<Rightarrow> BaseGraph \<times> real \<Rightarrow> BaseGraph \<times> real" where
  "openFr deps frCmbNd n st =
     (let gg = fst st
      in if isSettled gg frCmbNd then (openSinkFr n 0 gg, snd st)
         else (let costOffsetFrom = fl deps (p_45 (pens gg) - p_135 (pens gg))
               in (openSinkFr n (fl deps (costOffsetFrom + ndMovePen deps frCmbNd n)) gg,
                   costOffsetFrom)))"

definition openTo :: "RouteDeps \<Rightarrow> nat \<Rightarrow> nat \<Rightarrow> BaseGraph \<times> real \<Rightarrow> BaseGraph \<times> real" where
  "openTo deps toCmbNd n st =
     (let gg = fst st
      in if isSettled gg toCmbNd then (openSinkTo n 0 gg, snd st)
         else (let costOffsetTo = fl deps (p_45 (pens gg) - p_135 (pens gg))
               in (openSinkTo n (fl deps (costOffsetTo + ndMovePen deps toCmbNd n)) gg,
                   costOffsetTo)))"

text \<open>
  The two lines after a successful search: \<^verbatim>\<open>eL.front()\<close> loses \<^verbatim>\<open>costOffsetTo\<close>,
  then \<^verbatim>\<open>eL.back()\<close> loses \<^verbatim>\<open>costOffsetFrom\<close>; the second line reads the cost the
  first has written when the path has one edge only.
\<close>

definition removeOffsets ::
  "RouteDeps \<Rightarrow> nat list \<Rightarrow> real \<Rightarrow> real \<Rightarrow> BaseGraph \<Rightarrow> BaseGraph" where
  "removeOffsets deps eL costOffsetTo costOffsetFrom gg =
     (let gg = setCost (hd eL) (fl deps (cost gg (hd eL) - costOffsetTo)) gg
      in setCost (last eL) (fl deps (cost gg (last eL) - costOffsetFrom)) gg)"

record SinkState =
  grid :: BaseGraph
  costOffsetFrom :: real
  costOffsetTo :: real

definition openSinks :: "RouteDeps \<Rightarrow> nat \<Rightarrow> nat \<Rightarrow> nat set \<Rightarrow> nat set \<Rightarrow> BaseGraph \<Rightarrow> SinkState" where
  "openSinks deps frCmbNd toCmbNd frGrNds toGrNds gg =
     (let fr = fold (openFr deps frCmbNd) (sorted_list_of_set frGrNds) (gg, 0);
          to = fold (openTo deps toCmbNd) (sorted_list_of_set toGrNds) (fst fr, 0)
      in \<lparr>grid = fst to, costOffsetFrom = snd fr, costOffsetTo = snd to\<rparr>)"

definition closeSinks :: "nat set \<Rightarrow> nat set \<Rightarrow> BaseGraph \<Rightarrow> BaseGraph" where
  "closeSinks frGrNds toGrNds gg =
     fold closeSinkFr (sorted_list_of_set frGrNds) (fold closeSinkTo (sorted_list_of_set toGrNds) gg)"

text \<open>
  The body of the loop of the inner \<^verbatim>\<open>Octilinearizer::draw\<close>, which routes the edges of
  an order one by one, for one CombEdge, and the loop. An edge without candidates or
  without a path ends the loop with \<^verbatim>\<open>false\<close>.
\<close>

datatype RouteRes = NotRouted BaseGraph | Routed BaseGraph Drawing | RouteUndefined

definition routeEdge ::
  "RouteDeps \<Rightarrow> CombGraph \<Rightarrow> CombEdge \<Rightarrow> SettledPos \<Rightarrow> BaseGraph \<Rightarrow> Drawing \<Rightarrow> dbl \<Rightarrow> real
     \<Rightarrow> GeoPensMap option \<Rightarrow> RouteRes" where
  "routeEdge deps cg cmbEdg settled gg drawing globCutoff maxGrDist geoPensMap =
     (let cutoff = dround (fl deps) (dminus globCutoff (score drawing));
          cutoff = (if score drawing = PInf then score drawing else cutoff);
          frCmbNd = efr cmbEdg;
          toCmbNd = eto cmbEdg;
          (frGrNds, toGrNds) = getRtPair cg frCmbNd toCmbNd settled gg maxGrDist
      in if frGrNds = {} \<or> toGrNds = {} then NotRouted gg
         else
          (let swap = card toGrNds > card frGrNds;
               (frCmbNd, toCmbNd) = (if swap then (toCmbNd, frCmbNd) else (frCmbNd, toCmbNd));
               (frGrNds, toGrNds) = (if swap then (toGrNds, frGrNds) else (frGrNds, toGrNds));
               rev = swap;
               sinks = openSinks deps frCmbNd toCmbNd frGrNds toGrNds gg;
               gg = grid sinks;
               gg = (if card frGrNds = 1 \<and> isSettled gg frCmbNd
                     then writeNdCosts deps (Min frGrNds) frCmbNd cmbEdg gg else gg);
               gg = (if card toGrNds = 1 \<and> isSettled gg toCmbNd
                     then writeNdCosts deps (Min toGrNds) toCmbNd cmbEdg gg else gg);
               (eL, nL) = shortestPath deps gg frGrNds toGrNds
                            (dround (fl deps)
                               (dplusr (dround (fl deps) (dplusr cutoff (costOffsetTo sinks)))
                                  (costOffsetFrom sinks)))
                            (map_option (\<lambda>m. (m, cmbEdg)) geoPensMap)
           in if nL = [] then NotRouted (closeSinks frGrNds toGrNds gg)
              else if eL = [] then RouteUndefined
              else
               (let toGrNd = hd nL;
                    frGrNd = last nL;
                    gg = removeOffsets deps eL (costOffsetTo sinks) (costOffsetFrom sinks) gg;
                    drawing = drawingDraw deps cmbEdg eL rev gg drawing;
                    gg = closeSinks frGrNds toGrNds gg
                in Routed (settleRes deps frGrNd toGrNd gg frCmbNd toCmbNd eL cmbEdg) drawing)))"

datatype DrawRes = DrawRes bool BaseGraph Drawing | DrawUndefined

fun drawOrd ::
  "RouteDeps \<Rightarrow> CombGraph \<Rightarrow> CombEdge list \<Rightarrow> SettledPos \<Rightarrow> BaseGraph \<Rightarrow> Drawing \<Rightarrow> dbl \<Rightarrow> real
     \<Rightarrow> GeoPensMap option \<Rightarrow> DrawRes" where
  "drawOrd deps cg [] settled gg drawing globCutoff maxGrDist geoPensMap = DrawRes True gg drawing"
| "drawOrd deps cg (cmbEdg # ord) settled gg drawing globCutoff maxGrDist geoPensMap =
     (case routeEdge deps cg cmbEdg settled gg drawing globCutoff maxGrDist geoPensMap of
        NotRouted gg \<Rightarrow> DrawRes False gg drawing
      | RouteUndefined \<Rightarrow> DrawUndefined
      | Routed gg drawing \<Rightarrow> drawOrd deps cg ord settled gg drawing globCutoff maxGrDist geoPensMap)"

section \<open>The top-level draw\<close>

text \<open>
  \<^verbatim>\<open>Octilinearizer::draw(cg, box, ...)\<close>. The functions of \<^verbatim>\<open>BaseGraph\<close> and
  \<^verbatim>\<open>Drawing\<close> it calls are parameters again; \<^verbatim>\<open>newBaseGraph\<close> is the grid that
  \<^verbatim>\<open>newBaseGraph(box, gridSize, borderRad, pens)\<close> and \<^verbatim>\<open>init()\<close> build. The routine
  that routes a whole order (\<^verbatim>\<open>drawOrd\<close> above) is passed as \<^verbatim>\<open>drawFn\<close>, with the
  move radius and the geo penalties fixed.
\<close>

type_synonym DrawFn = "CombEdge list \<Rightarrow> SettledPos \<Rightarrow> BaseGraph \<Rightarrow> Drawing \<Rightarrow> dbl \<Rightarrow> DrawRes"

record SearchDeps =
  cmpNd :: "nat \<Rightarrow> nat \<Rightarrow> bool"
  randSrc :: "nat \<Rightarrow> nat"
  newBaseGraph :: BaseGraph
  writeGeoCoursePens :: "CombEdge \<Rightarrow> real \<Rightarrow> BaseGraph \<Rightarrow> GeoPensMap \<Rightarrow> GeoPensMap"
  addObstacle :: "(real \<times> real) list \<Rightarrow> BaseGraph \<Rightarrow> BaseGraph"
  eraseFromGrid :: "Drawing \<Rightarrow> BaseGraph \<Rightarrow> BaseGraph"
  applyToGrid :: "Drawing \<Rightarrow> BaseGraph \<Rightarrow> BaseGraph"
  eraseEdgFromGrid :: "Drawing \<Rightarrow> CombEdge \<Rightarrow> BaseGraph \<Rightarrow> BaseGraph"
  applyEdgToGrid :: "Drawing \<Rightarrow> CombEdge \<Rightarrow> BaseGraph \<Rightarrow> BaseGraph"
  eraseEdg :: "CombEdge \<Rightarrow> Drawing \<Rightarrow> Drawing"
  eraseNd :: "nat \<Rightarrow> Drawing \<Rightarrow> Drawing"
  unSettleNd :: "nat \<Rightarrow> BaseGraph \<Rightarrow> BaseGraph"
  settleNdAt :: "nat \<Rightarrow> nat \<Rightarrow> BaseGraph \<Rightarrow> BaseGraph"
  getNumNeighbors :: "BaseGraph \<Rightarrow> nat"
  getNeighbor :: "BaseGraph \<Rightarrow> nat \<Rightarrow> nat \<Rightarrow> nat option"
  getGrNd :: "Drawing \<Rightarrow> nat \<Rightarrow> nat"

record SearchState =
  ggsOf :: "BaseGraph list"
  drawingOf :: Drawing
  rndOf :: nat

definition tries :: nat where "tries = 100"

definition ITERS :: nat where "ITERS = 100"

definition jobs :: nat where "jobs = 4"

subsection \<open>Phase 1: the initial embedding\<close>

definition iterOrderOf ::
  "SearchDeps \<Rightarrow> CombGraph \<Rightarrow> CombEdge list \<Rightarrow> nat \<Rightarrow> nat \<Rightarrow> CombEdge list \<times> nat" where
  "iterOrderOf deps cg initOrder i r =
     (if i \<noteq> 0 then getOrdering cg (cmpNd deps) (randSrc deps) r True else (initOrder, r))"

definition tryDraw ::
  "SearchDeps \<Rightarrow> DrawFn \<Rightarrow> CombGraph \<Rightarrow> CombEdge list \<Rightarrow> nat \<Rightarrow> SearchState \<Rightarrow> DrawRes" where
  "tryDraw deps drawFn cg initOrder i st =
     drawFn (fst (iterOrderOf deps cg initOrder i (rndOf st))) Map.empty (ggsOf st ! 0) (drawingOf st)
       (score (drawingOf st))"

definition afterFailedTry ::
  "SearchDeps \<Rightarrow> CombGraph \<Rightarrow> CombEdge list \<Rightarrow> nat \<Rightarrow> SearchState \<Rightarrow> BaseGraph \<Rightarrow> Drawing
     \<Rightarrow> SearchState" where
  "afterFailedTry deps cg initOrder i st gg d =
     st\<lparr>ggsOf := (ggsOf st)[0 := eraseFromGrid deps d gg], drawingOf := crumble d,
        rndOf := snd (iterOrderOf deps cg initOrder i (rndOf st))\<rparr>"

definition afterFoundTry ::
  "SearchDeps \<Rightarrow> CombGraph \<Rightarrow> CombEdge list \<Rightarrow> nat \<Rightarrow> SearchState \<Rightarrow> BaseGraph \<Rightarrow> Drawing
     \<Rightarrow> SearchState" where
  "afterFoundTry deps cg initOrder i st gg d =
     st\<lparr>ggsOf := (ggsOf st)[0 := eraseFromGrid deps d gg], drawingOf := d,
        rndOf := snd (iterOrderOf deps cg initOrder i (rndOf st))\<rparr>"

text \<open>
  The loop \<^verbatim>\<open>for (size_t i = 0; i < tries; i++)\<close> and the \<^verbatim>\<open>throw\<close> after it. The
  result holds the number of tries that were made.
\<close>

function phase1 ::
  "SearchDeps \<Rightarrow> DrawFn \<Rightarrow> CombGraph \<Rightarrow> CombEdge list \<Rightarrow> nat \<Rightarrow> SearchState
     \<Rightarrow> failure + SearchState \<times> nat" where
  "phase1 deps drawFn cg initOrder i st =
     (if i < tries
      then (case tryDraw deps drawFn cg initOrder i st of
              DrawUndefined \<Rightarrow> Inl UndefinedBehaviour
            | DrawRes locFound gg d \<Rightarrow>
                if locFound then Inr (afterFoundTry deps cg initOrder i st gg d, i + 1)
                else phase1 deps drawFn cg initOrder (i + 1) (afterFailedTry deps cg initOrder i st gg d))
      else Inl NoEmbeddingFoundExc)"
  by pat_completeness auto
termination
  by (relation "measure (\<lambda>(deps, drawFn, cg, initOrder, i, st). tries - i)") auto

declare phase1.simps [simp del]

subsection \<open>Phase 2: the local search\<close>

text \<open>
  \<^verbatim>\<open>a->getAdjList()\<close> and the clockwise order hold the same edges; the model reads the
  latter.
\<close>

definition getAdjList :: "CombGraph \<Rightarrow> nat \<Rightarrow> CombEdge list" where
  "getAdjList cg a = getOrderedSet cg a"

definition getDeg :: "CombGraph \<Rightarrow> nat \<Rightarrow> nat" where
  "getDeg cg nd = length (getAdjList cg nd)"

definition addToBatch :: "CombGraph \<Rightarrow> nat \<Rightarrow> nat list list \<times> nat \<Rightarrow> nat list list \<times> nat" where
  "addToBatch cg nd st =
     (let batches = fst st; c = snd st
      in if getDeg cg nd = 0 then (batches, c)
         else (batches[c mod jobs := batches ! (c mod jobs) @ [nd]], c + 1))"

definition mkBatches :: "CombGraph \<Rightarrow> nat list list" where
  "mkBatches cg = fst (fold (addToBatch cg) (getNds cg) (replicate jobs [], 0))"

record WorkerState =
  wGrid :: BaseGraph
  bestFrIter :: Drawing

definition revertNd ::
  "SearchDeps \<Rightarrow> CombGraph \<Rightarrow> nat \<Rightarrow> Drawing \<Rightarrow> BaseGraph \<Rightarrow> Drawing \<times> BaseGraph" where
  "revertNd deps cg a drawingCp gg =
     (let st = fold (\<lambda>ce st. (eraseEdg deps ce (fst st), eraseEdgFromGrid deps (fst st) ce (snd st)))
                 (getAdjList cg a) (drawingCp, gg)
      in (eraseNd deps a (fst st), unSettleNd deps a (snd st)))"

definition tryPos ::
  "SearchDeps \<Rightarrow> DrawFn \<Rightarrow> CombGraph \<Rightarrow> real \<Rightarrow> bool \<Rightarrow> Drawing \<Rightarrow> Drawing \<Rightarrow> nat \<Rightarrow> nat
     \<Rightarrow> WorkerState option \<Rightarrow> WorkerState option" where
  "tryPos deps drawFn cg maxGrDist restrLocSearch drawing drawingCp a pos wopt =
     (case wopt of
        None \<Rightarrow> None
      | Some w \<Rightarrow>
          (let gg = wGrid w;
               n = getNeighbor deps gg (getGrNd deps drawing a) pos;
               p = (case n of Some n \<Rightarrow> [a \<mapsto> n] | None \<Rightarrow> Map.empty);
               skip = (case n of
                         Some n \<Rightarrow> restrLocSearch
                                   \<and> distGeo (cmbGeom cg a) (grGeom gg n) \<ge> cellSize gg * maxGrDist
                       | None \<Rightarrow> False)
           in if skip then Some w
              else (case drawFn (getAdjList cg a) p gg drawingCp (score (bestFrIter w)) of
                      DrawUndefined \<Rightarrow> None
                    | DrawRes found gg run \<Rightarrow>
                        (let best = (if found \<and> dless (score run) (score (bestFrIter w))
                                     then run else bestFrIter w);
                             gg = fold (\<lambda>ce gg. eraseEdgFromGrid deps run ce gg) (getAdjList cg a) gg;
                             gg = (if isSettled gg a then unSettleNd deps a gg else gg)
                         in Some \<lparr>wGrid = gg, bestFrIter = best\<rparr>))))"

definition searchNd ::
  "SearchDeps \<Rightarrow> DrawFn \<Rightarrow> CombGraph \<Rightarrow> real \<Rightarrow> bool \<Rightarrow> Drawing \<Rightarrow> nat
     \<Rightarrow> WorkerState option \<Rightarrow> WorkerState option" where
  "searchNd deps drawFn cg maxGrDist restrLocSearch drawing a wopt =
     (case wopt of
        None \<Rightarrow> None
      | Some w \<Rightarrow>
          (let rv = revertNd deps cg a drawing (wGrid w);
               drawingCp = fst rv;
               gg = snd rv;
               res = fold (tryPos deps drawFn cg maxGrDist restrLocSearch drawing drawingCp a)
                       [0..<getNumNeighbors deps gg + 1] (Some (w\<lparr>wGrid := gg\<rparr>))
           in case res of
                None \<Rightarrow> None
              | Some w \<Rightarrow>
                  (let gg = settleNdAt deps (getGrNd deps drawing a) a (wGrid w);
                       gg = fold (\<lambda>ce gg. applyEdgToGrid deps drawing ce gg) (getAdjList cg a) gg
                   in Some (w\<lparr>wGrid := gg\<rparr>))))"

definition worker ::
  "SearchDeps \<Rightarrow> DrawFn \<Rightarrow> CombGraph \<Rightarrow> real \<Rightarrow> bool \<Rightarrow> Drawing \<Rightarrow> nat list \<Rightarrow> BaseGraph
     \<Rightarrow> WorkerState option" where
  "worker deps drawFn cg maxGrDist restrLocSearch drawing batch gg =
     fold (searchNd deps drawFn cg maxGrDist restrLocSearch drawing) batch
       (Some \<lparr>wGrid = gg, bestFrIter = newDrawing\<rparr>)"

definition runWorkers ::
  "SearchDeps \<Rightarrow> DrawFn \<Rightarrow> CombGraph \<Rightarrow> real \<Rightarrow> bool \<Rightarrow> nat list list \<Rightarrow> SearchState
     \<Rightarrow> WorkerState option list" where
  "runWorkers deps drawFn cg maxGrDist restrLocSearch batches st =
     map (\<lambda>btch. worker deps drawFn cg maxGrDist restrLocSearch (drawingOf st) (batches ! btch)
                    (ggsOf st ! btch))
       [0..<jobs]"

text \<open>
  The reduce. \<^verbatim>\<open>size_t bestCore;\<close> is declared without a value and assigned only when
  a worker's score is below the best score so far, which starts at infinity.
\<close>

record Reduce =
  bestCore :: "nat option"
  bestScore :: dbl

definition reduceStep :: "Drawing list \<Rightarrow> nat \<Rightarrow> Reduce \<Rightarrow> Reduce" where
  "reduceStep bestFrIters i r =
     (if dless (score (bestFrIters ! i)) (bestScore r)
      then \<lparr>bestCore = Some i, bestScore = score (bestFrIters ! i)\<rparr>
      else r)"

definition reduce :: "Drawing list \<Rightarrow> Reduce" where
  "reduce bestFrIters =
     fold (reduceStep bestFrIters) [0..<jobs] \<lparr>bestCore = None, bestScore = PInf\<rparr>"

definition allSome :: "'a option list \<Rightarrow> 'a list option" where
  "allSome xs = (if list_all (\<lambda>x. x \<noteq> None) xs then Some (map the xs) else None)"

definition phase2Iter ::
  "SearchDeps \<Rightarrow> DrawFn \<Rightarrow> CombGraph \<Rightarrow> real \<Rightarrow> bool \<Rightarrow> nat list list \<Rightarrow> SearchState
     \<Rightarrow> failure + SearchState \<times> bool" where
  "phase2Iter deps drawFn cg maxGrDist restrLocSearch batches st =
     (case allSome (runWorkers deps drawFn cg maxGrDist restrLocSearch batches st) of
        None \<Rightarrow> Inl UndefinedBehaviour
      | Some ws \<Rightarrow>
          (let bestFrIters = map bestFrIter ws;
               grids = map wGrid ws
           in case bestCore (reduce bestFrIters) of
                None \<Rightarrow> Inl UndefinedBehaviour
              | Some bc \<Rightarrow>
                  (let imp = dminus (score (drawingOf st)) (score (bestFrIters ! bc));
                       grids = map (\<lambda>gg. applyToGrid deps (bestFrIters ! bc)
                                            (eraseFromGrid deps (drawingOf st) gg)) grids
                   in Inr (st\<lparr>ggsOf := grids, drawingOf := bestFrIters ! bc\<rparr>, dless imp (Fin 0.05)))))"

function phase2 ::
  "SearchDeps \<Rightarrow> DrawFn \<Rightarrow> CombGraph \<Rightarrow> real \<Rightarrow> bool \<Rightarrow> nat list list \<Rightarrow> nat \<Rightarrow> SearchState
     \<Rightarrow> failure + SearchState" where
  "phase2 deps drawFn cg maxGrDist restrLocSearch batches iters st =
     (if iters < ITERS
      then (case phase2Iter deps drawFn cg maxGrDist restrLocSearch batches st of
              Inl f \<Rightarrow> Inl f
            | Inr (st, stop) \<Rightarrow>
                if stop then Inr st
                else phase2 deps drawFn cg maxGrDist restrLocSearch batches (iters + 1) st)
      else Inr st)"
  by pat_completeness auto
termination
  by (relation "measure (\<lambda>(deps, drawFn, cg, maxGrDist, restrLocSearch, batches, iters, st). ITERS - iters)")
    auto

declare phase2.simps [simp del]

subsection \<open>Both phases\<close>

record Setup =
  suOrder :: "CombEdge list"
  suGeoPens :: "GeoPensMap option"
  suState :: SearchState

definition drawSetup ::
  "SearchDeps \<Rightarrow> CombGraph \<Rightarrow> real \<Rightarrow> (real \<times> real) list list \<Rightarrow> nat \<Rightarrow> Setup" where
  "drawSetup deps cg enfGeoPen obstacles seed =
     (let grids = replicate jobs (newBaseGraph deps);
          ord = getOrdering cg (cmpNd deps) (randSrc deps) seed False;
          gp = (if enfGeoPen > 0
                then Some (fold (\<lambda>cmbEdg m. writeGeoCoursePens deps cmbEdg enfGeoPen (grids ! 0) m)
                             (fst ord) Map.empty)
                else None);
          grids = (if obstacles \<noteq> []
                   then map (\<lambda>gg. fold (addObstacle deps) obstacles gg) grids else grids)
      in \<lparr>suOrder = fst ord, suGeoPens = gp,
          suState = \<lparr>ggsOf = grids, drawingOf = newDrawing, rndOf = snd ord\<rparr>\<rparr>)"

definition drawFnOf :: "RouteDeps \<Rightarrow> CombGraph \<Rightarrow> real \<Rightarrow> GeoPensMap option \<Rightarrow> DrawFn" where
  "drawFnOf rdeps cg maxGrDist gp =
     (\<lambda>ord settled gg d cutoff. drawOrd rdeps cg ord settled gg d cutoff maxGrDist gp)"

definition draw ::
  "SearchDeps \<Rightarrow> RouteDeps \<Rightarrow> CombGraph \<Rightarrow> real \<Rightarrow> bool \<Rightarrow> real \<Rightarrow> (real \<times> real) list list \<Rightarrow> nat
     \<Rightarrow> failure + dbl \<times> SearchState" where
  "draw deps rdeps cg maxGrDist restrLocSearch enfGeoPen obstacles seed =
     (let su = drawSetup deps cg enfGeoPen obstacles seed;
          drawFn = drawFnOf rdeps cg maxGrDist (suGeoPens su)
      in case phase1 deps drawFn cg (suOrder su) 0 (suState su) of
           Inl f \<Rightarrow> Inl f
         | Inr (st, n) \<Rightarrow>
             (let st = st\<lparr>ggsOf := map (applyToGrid deps (drawingOf st)) (ggsOf st)\<rparr>
              in case phase2 deps drawFn cg maxGrDist restrLocSearch (mkBatches cg) 0 st of
                   Inl f \<Rightarrow> Inl f
                 | Inr st \<Rightarrow> Inr (score (drawingOf st), st)))"

section \<open>Contracting short edges\<close>

text \<open>
  \<^verbatim>\<open>Octilinearizer::removeEdgesShorterThan\<close>. \<^verbatim>\<open>LineGraph::mergeNds\<close> and
  \<^verbatim>\<open>LineGraph::servedLines\<close> are not among the sources, and the specification does not
  say what they do; they are parameters. A pass is the pair of nested loops up to the
  first edge that is contracted; \<^verbatim>\<open>goto start\<close> is the recursive call. Whether the loop
  ends depends on \<^verbatim>\<open>mergeNds\<close>, so its result is an option. The second component of
  the result counts the restarts.
\<close>

record LineGraph =
  lgNds :: "nat list"
  lgAdjList :: "nat \<Rightarrow> nat list"
  lgFrom :: "nat \<Rightarrow> nat"
  lgTo :: "nat \<Rightarrow> nat"
  dontContract :: "nat \<Rightarrow> bool"
  polyLength :: "nat \<Rightarrow> real"
  stops :: "nat \<Rightarrow> nat"
  ndGeom :: "nat \<Rightarrow> real \<times> real"
  notServed :: "nat \<Rightarrow> nat set"

definition lgOtherNd :: "LineGraph \<Rightarrow> nat \<Rightarrow> nat \<Rightarrow> nat" where
  "lgOtherNd g e n = (if lgFrom g e = n then lgTo g e else lgFrom g e)"

definition contractible :: "LineGraph \<Rightarrow> real \<Rightarrow> nat \<times> nat \<Rightarrow> bool" where
  "contractible g d ne =
     (let n1 = fst ne; e1 = snd ne
      in \<not> dontContract g e1 \<and> polyLength g e1 < d
         \<and> length (lgAdjList g (lgOtherNd g e1 n1)) > 1
         \<and> length (lgAdjList g n1) > 1
         \<and> (stops g n1 = 0 \<or> stops g (lgOtherNd g e1 n1) = 0))"

definition findShort :: "LineGraph \<Rightarrow> real \<Rightarrow> (nat \<times> nat) option" where
  "findShort g d =
     find (contractible g d) (concat (map (\<lambda>n1. map (\<lambda>e1. (n1, e1)) (lgAdjList g n1)) (lgNds g)))"

definition addLineNotServed :: "nat \<Rightarrow> nat \<Rightarrow> LineGraph \<Rightarrow> LineGraph" where
  "addLineNotServed n l g = g\<lparr>notServed := (notServed g)(n := insert l (notServed g n))\<rparr>"

definition setGeom :: "nat \<Rightarrow> real \<times> real \<Rightarrow> LineGraph \<Rightarrow> LineGraph" where
  "setGeom n p g = g\<lparr>ndGeom := (ndGeom g)(n := p)\<rparr>"

definition markNotServed ::
  "(LineGraph \<Rightarrow> nat \<Rightarrow> nat list) \<Rightarrow> nat list \<Rightarrow> nat \<Rightarrow> LineGraph \<Rightarrow> LineGraph" where
  "markNotServed servedLines served n g =
     fold (\<lambda>l g. if l \<notin> set served then addLineNotServed n l g else g) (servedLines g n) g"

definition mergeShort ::
  "(LineGraph \<Rightarrow> nat \<Rightarrow> nat \<Rightarrow> LineGraph \<times> nat) \<Rightarrow> (LineGraph \<Rightarrow> nat \<Rightarrow> nat list)
     \<Rightarrow> LineGraph \<Rightarrow> nat \<Rightarrow> nat \<Rightarrow> LineGraph" where
  "mergeShort mergeNds servedLines g n1 e1 =
     (let otherP = ndGeom g (lgOtherNd g e1 n1);
          newGeom = ((fst (ndGeom g n1) + fst otherP) / 2, (snd (ndGeom g n1) + snd otherP) / 2);
          gn = (if stops g (lgTo g e1) > 0
                then (let served = servedLines g (lgTo g e1);
                          gn = mergeNds g (lgFrom g e1) (lgTo g e1)
                      in (markNotServed servedLines served (snd gn) (fst gn), snd gn))
                else if stops g (lgFrom g e1) > 0
                then (let served = servedLines g (lgFrom g e1);
                          gn = mergeNds g (lgTo g e1) (lgFrom g e1)
                      in (markNotServed servedLines served (snd gn) (fst gn), snd gn))
                else mergeNds g (lgTo g e1) (lgFrom g e1))
      in setGeom (snd gn) newGeom (fst gn))"

partial_function (option) removeLoop ::
  "(LineGraph \<Rightarrow> nat \<Rightarrow> nat \<Rightarrow> LineGraph \<times> nat) \<Rightarrow> (LineGraph \<Rightarrow> nat \<Rightarrow> nat list)
     \<Rightarrow> real \<Rightarrow> LineGraph \<Rightarrow> nat \<Rightarrow> (LineGraph \<times> nat) option" where
  "removeLoop mergeNds servedLines d g restarts =
     (case findShort g d of
        None \<Rightarrow> Some (g, restarts)
      | Some ne \<Rightarrow>
          removeLoop mergeNds servedLines d (mergeShort mergeNds servedLines g (fst ne) (snd ne))
            (restarts + 1))"

definition removeEdgesShorterThan ::
  "(LineGraph \<Rightarrow> nat \<Rightarrow> nat \<Rightarrow> LineGraph \<times> nat) \<Rightarrow> (LineGraph \<Rightarrow> nat \<Rightarrow> nat list)
     \<Rightarrow> LineGraph \<Rightarrow> real \<Rightarrow> (LineGraph \<times> nat) option" where
  "removeEdgesShorterThan mergeNds servedLines g d = removeLoop mergeNds servedLines d g 0"

section \<open>CombOptimizer: the optimizer of a component\<close>

text \<open>
  \<^verbatim>\<open>CombOptimizer::optimizeComp\<close> (transitmap/optim/CombOptimizer.cpp) reads two numbers
  of the component, \<^verbatim>\<open>maxC = maxCard(g)\<close> (a \<^verbatim>\<open>size_t\<close>) and
  \<^verbatim>\<open>solSp = solutionSpaceSize(g)\<close> (a \<^verbatim>\<open>double\<close>), and hands the component to exactly
  one of its three member optimizers. The model returns the optimizer that was called.
  The two measuring functions live in \<^verbatim>\<open>Optimizer\<close>, which is not among the sources, so
  the dispatch takes them as parameters.
\<close>

datatype OptimizerKind = NullOpt | ExhausOpt | IlpOpt

definition optimizeComp :: "('g \<Rightarrow> nat) \<Rightarrow> ('g \<Rightarrow> real) \<Rightarrow> 'g \<Rightarrow> OptimizerKind" where
  "optimizeComp maxCard solutionSpaceSize g =
     (let maxC = maxCard g; solSp = solutionSpaceSize g
      in if maxC = 1 then NullOpt
         else if solSp < 10 then ExhausOpt
         else IlpOpt)"

text \<open>
  Modelled from the spec: \<^verbatim>\<open>Optimizer::maxCard\<close> and \<^verbatim>\<open>Optimizer::solutionSpaceSize\<close>
  are not under src/. The spec names them \<^verbatim>\<open>maxCardinality(component)\<close> and
  \<^verbatim>\<open>solutionSpaceSize(component)\<close> and lets the exhaustive optimizer "try every
  permutation on every edge" (4! x 4! for two edges of four lines). A component is given
  here by the line lists of its edges: the maximum cardinality is the largest number of
  lines on an edge (0 when there is no edge), the solution space the product of the
  factorials.
\<close>

definition maxCard :: "'l list list \<Rightarrow> nat" where
  "maxCard g = fold (\<lambda>e ret. if length e > ret then length e else ret) g 0"

definition solutionSpaceSize :: "'l list list \<Rightarrow> real" where
  "solutionSpaceSize g = fold (\<lambda>e ret. ret * real (fact (length e))) g 1"

section \<open>OptGraphScorer: crossings at a node\<close>

text \<open>
  \<^verbatim>\<open>OptGraphScorer::getNumCrossings\<close> and \<^verbatim>\<open>getCrossingScore\<close>
  (transitmap/optim/OptGraphScorer.cpp). Edges and lines are numbers. The static functions
  of \<^verbatim>\<open>Optimizer\<close> and the penalties of the scorer are not among the sources and are
  parameters. \<^verbatim>\<open>c.at(e)\<close> throws when the configuration has no entry for the edge:
  the result is an option. \<^verbatim>\<open>std::distance(begin, std::find(begin, end, x))\<close> is the
  position of the first x, or the length. \<^verbatim>\<open>flOpt\<close> is the rounding of the double
  arithmetic of the score (the conversion of a count, a product, the sum); like
  \<^verbatim>\<open>fl\<close> above it is a parameter.
\<close>

type_synonym LinePair = "nat \<times> nat"

type_synonym PosCom = "nat \<times> nat"

type_synonym PosComPair = "PosCom \<times> PosCom"

type_synonym EdgePair = "nat \<times> nat"

type_synonym OptOrderingConfig = "nat \<rightharpoonup> nat list"

record OptNode =
  optAdjList :: "nat list"
  plNode :: "nat option"

record OptimDeps =
  getLinePairs :: "nat \<Rightarrow> bool \<Rightarrow> LinePair list"
  getEdgePartners :: "OptNode \<Rightarrow> nat \<Rightarrow> LinePair \<Rightarrow> nat list"
  getEdgePartnerPairs :: "OptNode \<Rightarrow> nat \<Rightarrow> LinePair \<Rightarrow> EdgePair list"
  crosses :: "OptNode \<Rightarrow> nat \<Rightarrow> nat \<Rightarrow> PosComPair \<Rightarrow> bool"
  crossesPair :: "OptNode \<Rightarrow> nat \<Rightarrow> EdgePair \<Rightarrow> PosCom \<Rightarrow> bool"
  getCrossingPenaltySameSeg :: "nat \<Rightarrow> real"
  getCrossingPenaltyDiffSeg :: "nat \<Rightarrow> real"
  flOpt :: "real \<Rightarrow> real"

fun findPos :: "'a list \<Rightarrow> 'a \<Rightarrow> nat" where
  "findPos [] x = 0"
| "findPos (y # ys) x = (if y = x then 0 else Suc (findPos ys x))"

fun foldOpt :: "('a \<Rightarrow> 's \<Rightarrow> 's option) \<Rightarrow> 'a list \<Rightarrow> 's \<Rightarrow> 's option" where
  "foldOpt f [] s = Some s"
| "foldOpt f (x # xs) s = (case f x s of None \<Rightarrow> None | Some s' \<Rightarrow> foldOpt f xs s')"

record Crossings =
  sameSegCrossings :: nat
  diffSegCrossings :: nat
  proced :: "LinePair \<Rightarrow> nat set"

definition partnerStep ::
  "OptimDeps \<Rightarrow> OptNode \<Rightarrow> OptOrderingConfig \<Rightarrow> nat \<Rightarrow> LinePair \<Rightarrow> nat \<Rightarrow> Crossings
     \<Rightarrow> Crossings option" where
  "partnerStep deps n c ea lp eb st =
     (if eb \<in> proced st lp then Some st
      else (case c ea of
              None \<Rightarrow> None
            | Some ca \<Rightarrow>
                (case c eb of
                   None \<Rightarrow> None
                 | Some cb \<Rightarrow>
                     (let posA = (findPos ca (fst lp), findPos cb (fst lp));
                          posB = (findPos ca (snd lp), findPos cb (snd lp));
                          poses = (posA, posB)
                      in if crosses deps n ea eb poses
                         then Some (st\<lparr>sameSegCrossings := sameSegCrossings st + 1\<rparr>)
                         else Some st))))"

definition partnerPairStep ::
  "OptimDeps \<Rightarrow> OptNode \<Rightarrow> OptOrderingConfig \<Rightarrow> nat \<Rightarrow> LinePair \<Rightarrow> EdgePair \<Rightarrow> Crossings
     \<Rightarrow> Crossings option" where
  "partnerPairStep deps n c ea lp ebc st =
     (case c ea of
        None \<Rightarrow> None
      | Some ca \<Rightarrow>
          (let posA = (findPos ca (fst lp), findPos ca (snd lp))
           in if crossesPair deps n ea ebc posA
              then Some (st\<lparr>diffSegCrossings := diffSegCrossings st + 1\<rparr>)
              else Some st))"

definition linePairStep ::
  "OptimDeps \<Rightarrow> OptNode \<Rightarrow> OptOrderingConfig \<Rightarrow> nat \<Rightarrow> LinePair \<Rightarrow> Crossings \<Rightarrow> Crossings option" where
  "linePairStep deps n c ea lp st =
     (let st = st\<lparr>proced := (proced st)(lp := insert ea (proced st lp))\<rparr>
      in case foldOpt (partnerStep deps n c ea lp) (getEdgePartners deps n ea lp) st of
           None \<Rightarrow> None
         | Some st \<Rightarrow> foldOpt (partnerPairStep deps n c ea lp) (getEdgePartnerPairs deps n ea lp) st)"

definition edgeStep ::
  "OptimDeps \<Rightarrow> OptNode \<Rightarrow> OptOrderingConfig \<Rightarrow> nat \<Rightarrow> Crossings \<Rightarrow> Crossings option" where
  "edgeStep deps n c ea st = foldOpt (linePairStep deps n c ea) (getLinePairs deps ea True) st"

definition getNumCrossings :: "OptimDeps \<Rightarrow> OptNode \<Rightarrow> OptOrderingConfig \<Rightarrow> (nat \<times> nat) option" where
  "getNumCrossings deps n c =
     map_option (\<lambda>st. (sameSegCrossings st, diffSegCrossings st))
       (foldOpt (edgeStep deps n c) (optAdjList n)
          \<lparr>sameSegCrossings = 0, diffSegCrossings = 0, proced = (\<lambda>lp. {})\<rparr>)"

definition getCrossingScore :: "OptimDeps \<Rightarrow> OptNode \<Rightarrow> OptOrderingConfig \<Rightarrow> real option" where
  "getCrossingScore deps n c =
     (case plNode n of
        None \<Rightarrow> Some 0
      | Some nd \<Rightarrow>
          (case getNumCrossings deps n c of
             None \<Rightarrow> None
           | Some numCrossings \<Rightarrow>
               Some (flOpt deps
                       (flOpt deps (flOpt deps (real (fst numCrossings))
                                    * getCrossingPenaltySameSeg deps nd)
                        + flOpt deps (flOpt deps (real (snd numCrossings))
                                      * getCrossingPenaltyDiffSeg deps nd)))))"

section \<open>GLPKSolver: columns, rows and the coefficient matrix\<close>

text \<open>
  shared/optim/GLPKSolver.cpp wraps a GLPK problem object. Of GLPK the wrapper uses:
  \<^verbatim>\<open>glp_add_cols(P, 1)\<close> and \<^verbatim>\<open>glp_add_rows(P, 1)\<close>, which append one column (row) and
  return its ordinal number, counted from 1; \<^verbatim>\<open>glp_set_col_name\<close>; and
  \<^verbatim>\<open>glp_find_col\<close> / \<^verbatim>\<open>glp_find_row\<close>, which return the ordinal number of the column
  (row) of that name, or 0 when there is none. The problem object is modelled by the
  lists of its columns and rows in ordinal order.
\<close>

datatype ColType = INT | BIN | CONT

datatype RowType = FIX | UP | LO

record VariableMatrix =
  rowNum :: "int list"
  colNum :: "int list"
  vals :: "real list"

record GLPKSolver =
  cols :: "(string \<times> ColType \<times> real) list"
  rows :: "(string \<times> RowType \<times> real) list"
  vm :: VariableMatrix

datatype abort = AssertCol | AssertRow

definition newSolver :: GLPKSolver where
  "newSolver = \<lparr>cols = [], rows = [], vm = \<lparr>rowNum = [], colNum = [], vals = []\<rparr>\<rparr>"

fun glp_find :: "string \<Rightarrow> string list \<Rightarrow> int" where
  "glp_find name [] = 0"
| "glp_find name (x # xs) =
     (if x = name then 1
      else (let r = glp_find name xs in if r = 0 then 0 else r + 1))"

definition addCol :: "string \<Rightarrow> ColType \<Rightarrow> real \<Rightarrow> GLPKSolver \<Rightarrow> int \<times> GLPKSolver" where
  "addCol name colType objCoef s =
     (let col = int (length (cols s)) + 1
      in (col - 1, s\<lparr>cols := cols s @ [(name, colType, objCoef)]\<rparr>))"

definition addRow :: "string \<Rightarrow> real \<Rightarrow> RowType \<Rightarrow> GLPKSolver \<Rightarrow> int \<times> GLPKSolver" where
  "addRow name bnd rowType s =
     (let row = int (length (rows s)) + 1
      in (row - 1, s\<lparr>rows := rows s @ [(name, rowType, bnd)]\<rparr>))"

definition getVarByName :: "GLPKSolver \<Rightarrow> string \<Rightarrow> int" where
  "getVarByName s name =
     (let ret = glp_find name (map fst (cols s)) in if ret = 0 then - 1 else ret - 1)"

definition getConstrByName :: "GLPKSolver \<Rightarrow> string \<Rightarrow> int" where
  "getConstrByName s name =
     (let ret = glp_find name (map fst (rows s)) in if ret = 0 then - 1 else ret - 1)"

definition addVar :: "int \<Rightarrow> int \<Rightarrow> real \<Rightarrow> VariableMatrix \<Rightarrow> VariableMatrix" where
  "addVar row col val m =
     m\<lparr>rowNum := rowNum m @ [row], colNum := colNum m @ [col], vals := vals m @ [val]\<rparr>"

text \<open>
The index-based overload: \<^verbatim>\<open>addColToRow(int rowId, int colId, double coef)\<close>.
\<close>

definition addColToRowIdx :: "int \<Rightarrow> int \<Rightarrow> real \<Rightarrow> GLPKSolver \<Rightarrow> GLPKSolver" where
  "addColToRowIdx rowId colId coef s = s\<lparr>vm := addVar (rowId + 1) (colId + 1) coef (vm s)\<rparr>"

text \<open>
  The name-based overload. \<^verbatim>\<open>assert(col)\<close> on an \<^verbatim>\<open>int\<close> aborts exactly when
  \<^verbatim>\<open>col\<close> is 0; the two lookups that only log are no branch of the model. The last
  line of the source passes \<^verbatim>\<open>(col, row, coef)\<close> to the overload whose parameters are
  \<^verbatim>\<open>(rowId, colId, coef)\<close>.
\<close>

definition addColToRow :: "string \<Rightarrow> string \<Rightarrow> real \<Rightarrow> GLPKSolver \<Rightarrow> abort + GLPKSolver" where
  "addColToRow rowName colName coef s =
     (let col = getVarByName s colName;
          row = getConstrByName s rowName
      in if col = 0 then Inl AssertCol
         else if row = 0 then Inl AssertRow
         else Inr (addColToRowIdx col row coef s))"

section \<open>Notions used in the statements\<close>

text \<open>
  The state before try i of Phase 1 when all tries before it failed, and the outcome
  of try i in that state.
\<close>

fun failedState ::
  "SearchDeps \<Rightarrow> DrawFn \<Rightarrow> CombGraph \<Rightarrow> CombEdge list \<Rightarrow> SearchState \<Rightarrow> nat \<Rightarrow> SearchState" where
  "failedState deps drawFn cg initOrder st0 0 = st0"
| "failedState deps drawFn cg initOrder st0 (Suc i) =
     (let st = failedState deps drawFn cg initOrder st0 i
      in case tryDraw deps drawFn cg initOrder i st of
           DrawRes locFound gg d \<Rightarrow> afterFailedTry deps cg initOrder i st gg d
         | DrawUndefined \<Rightarrow> st)"

definition tryOutcome ::
  "SearchDeps \<Rightarrow> DrawFn \<Rightarrow> CombGraph \<Rightarrow> CombEdge list \<Rightarrow> SearchState \<Rightarrow> nat \<Rightarrow> DrawRes" where
  "tryOutcome deps drawFn cg initOrder st0 i =
     tryDraw deps drawFn cg initOrder i (failedState deps drawFn cg initOrder st0 i)"

fun allRouted :: "DrawRes \<Rightarrow> bool" where
  "allRouted (DrawRes locFound gg d) = locFound"
| "allRouted DrawUndefined = False"

fun routeFailed :: "DrawRes \<Rightarrow> bool" where
  "routeFailed (DrawRes locFound gg d) = (\<not> locFound)"
| "routeFailed DrawUndefined = False"

text \<open>
  What one pass of the candidate loop adds to each side, and the endpoints whose
  candidates do not depend on the radius.
\<close>

definition frPart :: "CombGraph \<Rightarrow> nat \<Rightarrow> nat \<Rightarrow> SettledPos \<Rightarrow> BaseGraph \<Rightarrow> real \<Rightarrow> nat set" where
  "frPart cg fr to pre gg r =
     (getCands cg fr pre gg r - getCands cg to pre gg r)
     \<union> {x \<in> getCands cg fr pre gg r \<inter> getCands cg to pre gg r. nearerFr cg gg fr to x}"

definition toPart :: "CombGraph \<Rightarrow> nat \<Rightarrow> nat \<Rightarrow> SettledPos \<Rightarrow> BaseGraph \<Rightarrow> real \<Rightarrow> nat set" where
  "toPart cg fr to pre gg r =
     (getCands cg to pre gg r - getCands cg fr pre gg r)
     \<union> {x \<in> getCands cg fr pre gg r \<inter> getCands cg to pre gg r. \<not> nearerFr cg gg fr to x}"

definition fixedCands :: "SettledPos \<Rightarrow> BaseGraph \<Rightarrow> nat \<Rightarrow> bool" where
  "fixedCands preSettled gg cmbNd \<longleftrightarrow> getSettled gg cmbNd \<noteq> None \<or> preSettled cmbNd \<noteq> None"

text \<open>
The additional cost of a sink and the offset of an endpoint.
\<close>

definition sinkCost :: "RouteDeps \<Rightarrow> BaseGraph \<Rightarrow> nat \<Rightarrow> nat \<Rightarrow> real" where
  "sinkCost deps gg cmbNd n =
     (if isSettled gg cmbNd then 0
      else fl deps (fl deps (p_45 (pens gg) - p_135 (pens gg)) + ndMovePen deps cmbNd n))"

definition costOffset :: "RouteDeps \<Rightarrow> BaseGraph \<Rightarrow> nat \<Rightarrow> real" where
  "costOffset deps gg cmbNd =
     (if isSettled gg cmbNd then 0 else fl deps (p_45 (pens gg) - p_135 (pens gg)))"

text \<open>
The invariants of the ordering loops and of the reduce.
\<close>

definition ordInv :: "CombGraph \<Rightarrow> OrdState \<Rightarrow> bool" where
  "ordInv cg st \<longleftrightarrow>
     set (orderSeq st) = doneSet st \<and> distinct (orderSeq st)
     \<and> (\<forall>n \<in> settledSet st. set (getOrderedSet cg n) \<subseteq> doneSet st)
     \<and> doneSet st \<subseteq> set (getEdgs cg)"

definition redInv :: "Drawing list \<Rightarrow> nat \<Rightarrow> Reduce \<Rightarrow> bool" where
  "redInv bs k r \<longleftrightarrow>
     (case bestCore r of
        None \<Rightarrow> bestScore r = PInf \<and> (\<forall>j<k. \<not> dless (score (bs ! j)) PInf)
      | Some bc \<Rightarrow> bc < k \<and> bestScore r = score (bs ! bc) \<and> dless (score (bs ! bc)) PInf
                   \<and> (\<forall>j<k. \<not> dless (score (bs ! j)) (score (bs ! bc))))"

text \<open>
  The pairs (line pair, unordered pair of edges) a crossing can be counted for: the edge
  pairs whose first edge is adjacent to the node and whose second edge is a partner of
  the first for that line pair. The edges marked as processed for a line pair once a
  list of edges is done: those of the list that carry the line pair.
\<close>

definition keysOf :: "OptimDeps \<Rightarrow> OptNode \<Rightarrow> nat list \<Rightarrow> (LinePair \<times> nat set) set" where
  "keysOf deps n es =
     {(lp, {ea, eb}) | lp ea eb.
        ea \<in> set es \<and> lp \<in> set (getLinePairs deps ea True) \<and> eb \<in> set (getEdgePartners deps n ea lp)}"

definition procedBy :: "OptimDeps \<Rightarrow> nat list \<Rightarrow> LinePair \<Rightarrow> nat set" where
  "procedBy deps es lp = {a \<in> set es. lp \<in> set (getLinePairs deps a True)}"

text \<open>
  The positions that \<^verbatim>\<open>getNumCrossings\<close> hands to \<^verbatim>\<open>Optimizer::crosses\<close>: of the two
  lines of a line pair on the two edges (\<^verbatim>\<open>poses\<close>), and of the two lines on one edge
  (\<^verbatim>\<open>posA\<close> of the second loop).
\<close>

definition posesOf :: "OptOrderingConfig \<Rightarrow> nat \<Rightarrow> nat \<Rightarrow> LinePair \<Rightarrow> PosComPair" where
  "posesOf c ea eb lp =
     ((findPos (the (c ea)) (fst lp), findPos (the (c eb)) (fst lp)),
      (findPos (the (c ea)) (snd lp), findPos (the (c eb)) (snd lp)))"

definition posOf :: "OptOrderingConfig \<Rightarrow> nat \<Rightarrow> LinePair \<Rightarrow> PosCom" where
  "posOf c ea lp = (findPos (the (c ea)) (fst lp), findPos (the (c ea)) (snd lp))"

text \<open>
  The crossings at a node, written without the loops. A same-segment crossing of a line
  pair is counted at an adjacent edge ea for a partner eb of ea that is not ea itself,
  is none of the edges before ea in the adjacency list that carry the line pair, and
  for which the two lines cross between ea and eb; it is listed with its line pair and
  the unordered pair of ea and eb. A different-segment crossing is counted at ea for a
  partner pair in which the two lines cross.
\<close>

definition sameSegAt ::
  "OptimDeps \<Rightarrow> OptNode \<Rightarrow> OptOrderingConfig \<Rightarrow> nat list \<Rightarrow> nat \<Rightarrow> LinePair \<Rightarrow> nat list" where
  "sameSegAt deps n c seen ea lp =
     filter (\<lambda>eb. eb \<noteq> ea \<and> eb \<notin> procedBy deps seen lp \<and> crosses deps n ea eb (posesOf c ea eb lp))
       (getEdgePartners deps n ea lp)"

fun sameSegList ::
  "OptimDeps \<Rightarrow> OptNode \<Rightarrow> OptOrderingConfig \<Rightarrow> nat list \<Rightarrow> nat list \<Rightarrow> (LinePair \<times> nat set) list" where
  "sameSegList deps n c seen [] = []"
| "sameSegList deps n c seen (ea # es) =
     concat (map (\<lambda>lp. map (\<lambda>eb. (lp, {ea, eb})) (sameSegAt deps n c seen ea lp))
               (getLinePairs deps ea True))
     @ sameSegList deps n c (seen @ [ea]) es"

definition diffSegAt ::
  "OptimDeps \<Rightarrow> OptNode \<Rightarrow> OptOrderingConfig \<Rightarrow> nat \<Rightarrow> LinePair \<Rightarrow> EdgePair list" where
  "diffSegAt deps n c ea lp =
     filter (\<lambda>ebc. crossesPair deps n ea ebc (posOf c ea lp)) (getEdgePartnerPairs deps n ea lp)"

definition diffSegList ::
  "OptimDeps \<Rightarrow> OptNode \<Rightarrow> OptOrderingConfig \<Rightarrow> nat list \<Rightarrow> (LinePair \<times> nat \<times> EdgePair) list" where
  "diffSegList deps n c es =
     concat (map (\<lambda>ea. concat (map (\<lambda>lp. map (\<lambda>ebc. (lp, ea, ebc)) (diffSegAt deps n c ea lp))
                                   (getLinePairs deps ea True))) es)"

text \<open>
  Configurations with an entry for every edge the count looks up, and nodes whose
  adjacency list, line-pair lists and partner lists hold nothing twice.
\<close>

definition cfgHas :: "OptimDeps \<Rightarrow> OptNode \<Rightarrow> OptOrderingConfig \<Rightarrow> bool" where
  "cfgHas deps n c \<longleftrightarrow>
     (\<forall>ea \<in> set (optAdjList n). c ea \<noteq> None
        \<and> (\<forall>lp \<in> set (getLinePairs deps ea True).
              \<forall>eb \<in> set (getEdgePartners deps n ea lp). c eb \<noteq> None))"

definition uniqueLists :: "OptimDeps \<Rightarrow> OptNode \<Rightarrow> bool" where
  "uniqueLists deps n \<longleftrightarrow>
     distinct (optAdjList n)
     \<and> (\<forall>ea \<in> set (optAdjList n). distinct (getLinePairs deps ea True)
           \<and> (\<forall>lp \<in> set (getLinePairs deps ea True). distinct (getEdgePartners deps n ea lp)))"

section \<open>Example inputs\<close>

text \<open>
  A grid with the single cell 7 at (3, 0); a graph of two nodes at (8, 0) and (0, 0)
  joined by one edge; a graph of one node with a loop edge.
\<close>

definition grid1 :: BaseGraph where
  "grid1 = \<lparr>cellSize = 1, pens = \<lparr>p_0 = 0, p_45 = 1, p_90 = 2, p_135 = 3\<rparr>,
     grNds = [7], grGeom = (\<lambda>n. (3, 0)), grParent = (\<lambda>n. Some n), closedNds = {},
     settledNds = [], sinkFr = Map.empty, sinkTo = Map.empty, edgCost = (\<lambda>e. 0)\<rparr>"

definition cg2 :: CombGraph where
  "cg2 = [\<lparr>geom = (8, 0), edgeOrdering = [\<lparr>efr = 0, eto = 1, eid = 0\<rparr>]\<rparr>,
          \<lparr>geom = (0, 0), edgeOrdering = [\<lparr>efr = 0, eto = 1, eid = 0\<rparr>]\<rparr>]"

definition cgLoop :: CombGraph where
  "cgLoop = [\<lparr>geom = (0, 0), edgeOrdering = [\<lparr>efr = 0, eto = 0, eid = 0\<rparr>, \<lparr>efr = 0, eto = 0, eid = 0\<rparr>]\<rparr>]"

text \<open>
  A search environment whose grid operations leave the grid as it is; a routing
  environment in which no path is ever found; a routine that routes every order with
  total score 12; an incumbent Drawing of score 10.
\<close>

definition depsE :: SearchDeps where
  "depsE = \<lparr>cmpNd = (\<lambda>a b. a < b), randSrc = (\<lambda>k. k), newBaseGraph = grid1,
     writeGeoCoursePens = (\<lambda>e w gg m. m), addObstacle = (\<lambda>ob gg. gg),
     eraseFromGrid = (\<lambda>d gg. gg), applyToGrid = (\<lambda>d gg. gg),
     eraseEdgFromGrid = (\<lambda>d e gg. gg), applyEdgToGrid = (\<lambda>d e gg. gg),
     eraseEdg = (\<lambda>e d. d), eraseNd = (\<lambda>n d. d), unSettleNd = (\<lambda>n gg. gg),
     settleNdAt = (\<lambda>n a gg. gg), getNumNeighbors = (\<lambda>gg. 8),
     getNeighbor = (\<lambda>gg n pos. Some n), getGrNd = (\<lambda>d a. 7)\<rparr>"

definition rdepsE :: RouteDeps where
  "rdepsE = \<lparr>ndMovePen = (\<lambda>c n. 2), topoBlockPen = (\<lambda>g n c e. []), spacingPen = (\<lambda>g n c e. []),
     nodeBendPen = (\<lambda>g n e. []), addCostVec = (\<lambda>n c g. g),
     shortestPath = (\<lambda>g frs tos cutoff gp. ([], [])),
     drawingDraw = (\<lambda>e eL rev g d. d), settleNd = (\<lambda>n c g. g), settleEdg = (\<lambda>a b e g. g),
     isSecondary = (\<lambda>e. False), edgParents = (\<lambda>e. (0, 0)), fl = (\<lambda>x. x)\<rparr>"



text \<open>
  A grid of three cells on which CombNode 1 is settled on cell 9, with edge costs 10 and
  the penalties p_45 = 3 and p_135 = 1; a routing environment with exact arithmetic and
  the displacement penalty 5, in which the search returns the path of the edges 4, 5, 6
  from cell 7 to cell 9 and the Drawing takes the cost of the path as its score.
\<close>

definition grid2 :: BaseGraph where
  "grid2 = \<lparr>cellSize = 1, pens = \<lparr>p_0 = 0, p_45 = 3, p_90 = 2, p_135 = 1\<rparr>,
     grNds = [7, 8, 9], grGeom = (\<lambda>n. (real n, 0)), grParent = (\<lambda>n. Some n), closedNds = {},
     settledNds = [(1, 9)], sinkFr = Map.empty, sinkTo = Map.empty, edgCost = (\<lambda>e. 10)\<rparr>"

definition rdepsR :: RouteDeps where
  "rdepsR = \<lparr>ndMovePen = (\<lambda>c n. 5), topoBlockPen = (\<lambda>g n c e. []), spacingPen = (\<lambda>g n c e. []),
     nodeBendPen = (\<lambda>g n e. []), addCostVec = (\<lambda>n c g. g),
     shortestPath = (\<lambda>g frs tos cutoff gp. ([4, 5, 6], [9, 8, 7])),
     drawingDraw = (\<lambda>e eL rev g d. d\<lparr>score := Fin (sum_list (map (edgCost g) eL))\<rparr>),
     settleNd = (\<lambda>n c g. g), settleEdg = (\<lambda>a b e g. g),
     isSecondary = (\<lambda>e. False), edgParents = (\<lambda>e. (0, 0)), fl = (\<lambda>x. x)\<rparr>"

text \<open>
  A node with three edges; the edges 0 and 1 carry the lines 1 and 2 in opposite orders
  and each is the partner of the other for the line pair (1, 2); at edge 0 the two lines
  also continue into the partner pair (1, 2). The arithmetic is exact. Then the same node
  with edge 0 twice in its adjacency list, the same environment with the line pair
  listed twice, and with the partner of edge 0 listed twice.
\<close>

definition optimE :: OptimDeps where
  "optimE = \<lparr>getLinePairs = (\<lambda>e b. [(1, 2)]),
     getEdgePartners = (\<lambda>n ea lp. if ea = 0 then [1] else if ea = 1 then [0] else []),
     getEdgePartnerPairs = (\<lambda>n ea lp. if ea = 0 then [(1, 2)] else []),
     crosses = (\<lambda>n ea eb poses. (fst (fst poses) < fst (snd poses)) \<noteq> (snd (fst poses) < snd (snd poses))),
     crossesPair = (\<lambda>n ea ebc pos. fst pos < snd pos),
     getCrossingPenaltySameSeg = (\<lambda>nd. 4), getCrossingPenaltyDiffSeg = (\<lambda>nd. 1),
     flOpt = (\<lambda>x. x)\<rparr>"

definition nodeE :: OptNode where
  "nodeE = \<lparr>optAdjList = [0, 1, 2], plNode = Some 0\<rparr>"

definition cfgE :: OptOrderingConfig where
  "cfgE = [0 \<mapsto> [1, 2], 1 \<mapsto> [2, 1], 2 \<mapsto> [1, 2]]"

definition nodeDup :: OptNode where
  "nodeDup = \<lparr>optAdjList = [0, 0, 1, 2], plNode = Some 0\<rparr>"

definition optimDupLp :: OptimDeps where
  "optimDupLp = optimE\<lparr>getLinePairs := (\<lambda>e b. [(1, 2), (1, 2)])\<rparr>"

definition optimDupPartner :: OptimDeps where
  "optimDupPartner =
     optimE\<lparr>getEdgePartners := (\<lambda>n ea lp. if ea = 0 then [1, 1] else if ea = 1 then [0] else [])\<rparr>"

section \<open>The routing order\<close>

lemma ordInv_settleNext:
  assumes "ordInv cg st"
  shows "ordInv cg (settleNext cg rand randr n st)"
  using assms settleNext_order [of st cg rand randr n] getOrderedSet_subset [of cg n]
  by (auto simp: ordInv_def settleNext_doneSet settleNext_settled)

lemma ordInv_dangling_upd: "ordInv cg (st\<lparr>dangling := d\<rparr>) = ordInv cg st"
  by (simp add: ordInv_def)

lemma danglingLoop_inv:
  "ordInv cg st \<Longrightarrow>
   ordInv cg (danglingLoop cg cmp rand randr st)
   \<and> set (dangling st) \<union> settledSet st \<subseteq> settledSet (danglingLoop cg cmp rand randr st)"
proof (induction cg cmp rand randr st rule: danglingLoop.induct)
  case (1 cg cmp rand randr st)
  show ?case
  proof (cases "dangling st = []")
    case True
    then show ?thesis using "1.prems" by (subst (1 2) danglingLoop.simps) simp
  next
    case False
    define n where "n = pqTop cmp (dangling st)"
    define st1 where "st1 = st\<lparr>dangling := pqPop cmp (dangling st)\<rparr>"
    have inv1: "ordInv cg st1" using "1.prems" by (simp add: st1_def ordInv_dangling_upd)
    have dang: "set (dangling st) \<subseteq> insert n (set (dangling st1))"
      using set_pqPop [of "dangling st" cmp] by (simp add: st1_def n_def)
    have sett: "settledSet st1 = settledSet st" by (simp add: st1_def)
    show ?thesis
    proof (cases "n \<in> settledSet st1")
      case True
      have eq: "danglingLoop cg cmp rand randr st = danglingLoop cg cmp rand randr st1"
        using False True by (subst danglingLoop.simps) (simp add: Let_def n_def st1_def)
      from "1.IH"(1) [OF False n_def st1_def True inv1]
      show ?thesis unfolding eq using dang sett True by auto
    next
      case notin: False
      let ?st2 = "settleNext cg rand randr n st1"
      have eq: "danglingLoop cg cmp rand randr st = danglingLoop cg cmp rand randr ?st2"
        using False notin by (subst danglingLoop.simps) (simp add: Let_def n_def st1_def)
      have inv2: "ordInv cg ?st2" using inv1 by (rule ordInv_settleNext)
      have d2: "set (dangling st1) \<subseteq> set (dangling ?st2)"
      proof -
        have "\<And>es s. set (dangling s) \<subseteq> set (dangling (visitEdges n es s))"
        proof -
          fix es s show "set (dangling s) \<subseteq> set (dangling (visitEdges n es s))"
            by (induction es arbitrary: s) (auto split: if_splits, fastforce+)
        qed
        from this [of "st1\<lparr>rnd := r\<rparr>" for r] show ?thesis
          by (simp add: settleNext_def Let_def)
      qed
      from "1.IH"(2) [OF False n_def st1_def notin inv2]
      show ?thesis unfolding eq using dang sett d2 by (auto simp: settleNext_settled)
    qed
  qed
qed

lemma globalLoop_inv:
  "ordInv cg st \<Longrightarrow>
   ordInv cg (globalLoop cg cmp rand randr globalPq st)
   \<and> set globalPq \<union> settledSet st \<subseteq> settledSet (globalLoop cg cmp rand randr globalPq st)"
proof (induction cg cmp rand randr globalPq st rule: globalLoop.induct)
  case (1 cg cmp rand randr globalPq st)
  show ?case
  proof (cases "globalPq = []")
    case True
    then show ?thesis using "1.prems" by (subst (1 2) globalLoop.simps) simp
  next
    case False
    define n where "n = pqTop cmp globalPq"
    define q where "q = pqPop cmp globalPq"
    define st1 where "st1 = danglingLoop cg cmp rand randr (st\<lparr>dangling := dangling st @ [n]\<rparr>)"
    have eq: "globalLoop cg cmp rand randr globalPq st = globalLoop cg cmp rand randr q st1"
      using False by (subst globalLoop.simps) (simp add: Let_def n_def q_def st1_def)
    have "ordInv cg (st\<lparr>dangling := dangling st @ [n]\<rparr>)"
      using "1.prems" by (simp add: ordInv_dangling_upd)
    from danglingLoop_inv [OF this, of cmp rand randr]
    have inv1: "ordInv cg st1" and s1: "insert n (settledSet st) \<subseteq> settledSet st1"
      by (auto simp: st1_def)
    have qs: "set globalPq \<subseteq> insert n (set q)"
      using set_pqPop [of globalPq cmp] by (simp add: q_def n_def)
    from "1.IH" [OF False n_def q_def st1_def inv1]
    show ?thesis unfolding eq using s1 qs by auto
  qed
qed

lemma getOrdering_props:
  "distinct (fst (getOrdering cg cmp rand seed randr))
   \<and> set (fst (getOrdering cg cmp rand seed randr)) = set (getEdgs cg)"
proof -
  let ?init = "\<lparr>dangling = [], settledSet = {}, doneSet = {}, orderSeq = [], rnd = seed\<rparr>"
  let ?st = "globalLoop cg cmp rand randr (getNds cg) ?init"
  have "ordInv cg ?init" by (simp add: ordInv_def)
  from globalLoop_inv [OF this, of cmp rand randr "getNds cg"]
  have inv: "ordInv cg ?st" and all: "set (getNds cg) \<subseteq> settledSet ?st" by auto
  have "set (getEdgs cg) \<subseteq> doneSet ?st"
  proof
    fix e assume "e \<in> set (getEdgs cg)"
    then obtain nd where nd: "nd \<in> set cg" "e \<in> set (edgeOrdering nd)"
      by (auto simp: getEdgs_def)
    then obtain n where n: "n < length cg" "cg ! n = nd" by (auto simp: in_set_conv_nth)
    then have "n \<in> settledSet ?st" using all by (auto simp: getNds_def)
    moreover have "e \<in> set (getOrderedSet cg n)" using n nd by (simp add: getOrderedSet_def)
    ultimately show "e \<in> doneSet ?st" using inv by (auto simp: ordInv_def)
  qed
  with inv show ?thesis by (auto simp: getOrdering_def Let_def ordInv_def)
qed

lemma getOrdering_empty: "getOrdering [] cmp rand seed randr = ([], seed)"
  by (simp add: getOrdering_def getNds_def globalLoop.simps)

text \<open>
  C5: for every CombGraph, every comparator of the queue, every random source and both
  values of the flag, the order holds every CombEdge of the graph exactly once: it has
  no duplicates, and its elements are the CombEdges of the graph.
\<close>

theorem getOrdering_total_order:
  "distinct (fst (getOrdering cg cmp rand seed randr))
   \<and> set (fst (getOrdering cg cmp rand seed randr)) = set (getEdgs cg)"
  by (rule getOrdering_props)

section \<open>The candidate cells\<close>

lemma rtLoop_passes:
  "passes st \<le> 10 \<Longrightarrow> passes (rtLoop cg fr to pre gg st) \<le> 10"
proof (induction cg fr to pre gg st rule: rtLoop.induct)
  case (1 cg fr to pre gg st)
  show ?case
  proof (cases "(rtFr st = {} \<or> rtTo st = {}) \<and> passes st < 10")
    case True
    then have "passes (rtPass cg fr to pre gg st) \<le> 10" by (simp add: rtPass_def Let_def)
    from "1.IH" [OF True this] show ?thesis using True by (subst rtLoop.simps) simp
  next
    case False
    then show ?thesis using "1.prems" by (subst rtLoop.simps) auto
  qed
qed

lemma rtPass_sets:
  "rtFr (rtPass cg fr to pre gg st) = rtFr st \<union> frPart cg fr to pre gg (rtDis st)"
  "rtTo (rtPass cg fr to pre gg st) = rtTo st \<union> toPart cg fr to pre gg (rtDis st)"
  by (auto simp: rtPass_def Let_def frPart_def toPart_def)

lemma rtLoop_separated:
  assumes "\<And>r. frPart cg fr to pre gg r \<subseteq> A" "\<And>r. toPart cg fr to pre gg r \<subseteq> B"
    and "rtFr st \<subseteq> A" "rtTo st \<subseteq> B"
  shows "rtFr (rtLoop cg fr to pre gg st) \<subseteq> A \<and> rtTo (rtLoop cg fr to pre gg st) \<subseteq> B"
  using assms
proof (induction cg fr to pre gg st rule: rtLoop.induct)
  case (1 cg fr to pre gg st)
  show ?case
  proof (cases "(rtFr st = {} \<or> rtTo st = {}) \<and> passes st < 10")
    case True
    have a: "rtFr (rtPass cg fr to pre gg st) \<subseteq> A"
      using "1.prems"(1,3) by (simp add: rtPass_sets)
    have b: "rtTo (rtPass cg fr to pre gg st) \<subseteq> B"
      using "1.prems"(2,4) by (simp add: rtPass_sets)
    from "1.IH" [OF True "1.prems"(1,2) a b] show ?thesis using True
      by (subst (1 2) rtLoop.simps) simp
  next
    case False
    then show ?thesis using "1.prems" by (subst (1 2) rtLoop.simps) auto
  qed
qed

lemma getCands_fixed:
  "fixedCands pre gg n \<Longrightarrow> getCands cg n pre gg r = getCands cg n pre gg 0"
  by (auto simp: fixedCands_def getCands_def split: option.splits)

lemma frPart_toPart_disjoint: "frPart cg fr to pre gg r \<inter> toPart cg fr to pre gg r = {}"
  by (auto simp: frPart_def toPart_def)

lemma getCands_settled: "getSettled gg n = Some s \<Longrightarrow> getCands cg n pre gg r = {s}"
  by (simp add: getCands_def)

lemma getCands_free:
  "getSettled gg n = None \<Longrightarrow> pre n = None \<Longrightarrow> getCands cg n pre gg r = getGrNdCands cg gg n r"
  by (simp add: getCands_def)

lemma getSettled_is_settled_cell: "getSettled gg n = Some s \<Longrightarrow> s \<in> snd ` set (settledNds gg)"
  by (force simp: getSettled_def dest: map_of_SomeD)

lemma getGrNdCands_unsettled: "x \<in> getGrNdCands cg gg n r \<Longrightarrow> x \<notin> snd ` set (settledNds gg)"
  by (simp add: getGrNdCands_def)

lemma getGrNdCands_diff:
  "x \<in> getGrNdCands cg gg n r \<Longrightarrow> x \<notin> getGrNdCands cg gg m r \<Longrightarrow>
   distGeo (grGeom gg x) (cmbGeom cg n) < distGeo (grGeom gg x) (cmbGeom cg m)"
  by (auto simp: getGrNdCands_def)

lemma rtLoop_disjoint:
  assumes mix1: "getSettled gg fr = None \<and> pre fr \<noteq> None \<longrightarrow> fixedCands pre gg to"
    and mix2: "getSettled gg to = None \<and> pre to \<noteq> None \<longrightarrow> fixedCands pre gg fr"
    and st: "rtFr st = {}" "rtTo st = {}"
  shows "rtFr (rtLoop cg fr to pre gg st) \<inter> rtTo (rtLoop cg fr to pre gg st) = {}"
proof -
  have "\<exists>A B. A \<inter> B = {} \<and> (\<forall>r. frPart cg fr to pre gg r \<subseteq> A) \<and> (\<forall>r. toPart cg fr to pre gg r \<subseteq> B)"
  proof (cases "fixedCands pre gg fr \<and> fixedCands pre gg to")
    case True
    then have f: "getCands cg fr pre gg r = getCands cg fr pre gg 0"
      and t: "getCands cg to pre gg r = getCands cg to pre gg 0" for r
      using getCands_fixed [of pre gg fr cg r] getCands_fixed [of pre gg to cg r] by simp_all
    have "frPart cg fr to pre gg r = frPart cg fr to pre gg 0"
      and "toPart cg fr to pre gg r = toPart cg fr to pre gg 0" for r
      unfolding frPart_def toPart_def by (simp_all only: f [of r] t [of r])
    then show ?thesis using frPart_toPart_disjoint [of cg fr to pre gg 0]
      by - (rule exI [of _ "frPart cg fr to pre gg 0"], rule exI [of _ "toPart cg fr to pre gg 0"], blast)
  next
    case False
    then consider
      (fr_free) "getSettled gg fr = None" "pre fr = None" "getSettled gg to = None" "pre to = None"
      | (to_settled) s where "getSettled gg fr = None" "pre fr = None" "getSettled gg to = Some s"
      | (fr_settled) s where "getSettled gg to = None" "pre to = None" "getSettled gg fr = Some s"
      using mix1 mix2
      by (cases "getSettled gg fr"; cases "getSettled gg to"; cases "pre fr"; cases "pre to")
        (auto simp: fixedCands_def)
    then show ?thesis
    proof cases
      case fr_free
      let ?A = "{x. nearerFr cg gg fr to x}"
      have "\<And>r. frPart cg fr to pre gg r \<subseteq> ?A"
        using fr_free by (auto simp: frPart_def getCands_free nearerFr_def dest: getGrNdCands_diff)
      moreover have "\<And>r. toPart cg fr to pre gg r \<subseteq> - ?A"
        using fr_free getGrNdCands_diff [of _ cg gg to _ fr]
        by (fastforce simp: toPart_def getCands_free nearerFr_def)
      ultimately show ?thesis
        by - (rule exI [of _ ?A], rule exI [of _ "- ?A"], auto)
    next
      case to_settled
      have "\<And>r. frPart cg fr to pre gg r \<subseteq> - {s}"
        using to_settled getSettled_is_settled_cell [of gg to s]
        by (auto simp: frPart_def getCands_free getCands_settled dest: getGrNdCands_unsettled)
      moreover have "\<And>r. toPart cg fr to pre gg r \<subseteq> {s}"
        using to_settled by (auto simp: toPart_def getCands_settled)
      ultimately show ?thesis
        by - (rule exI [of _ "- {s}"], rule exI [of _ "{s}"], auto)
    next
      case fr_settled
      have "\<And>r. toPart cg fr to pre gg r \<subseteq> - {s}"
        using fr_settled getSettled_is_settled_cell [of gg fr s]
        by (auto simp: toPart_def getCands_free getCands_settled dest: getGrNdCands_unsettled)
      moreover have "\<And>r. frPart cg fr to pre gg r \<subseteq> {s}"
        using fr_settled by (auto simp: frPart_def getCands_settled)
      ultimately show ?thesis
        by - (rule exI [of _ "{s}"], rule exI [of _ "- {s}"], auto)
    qed
  qed
  then obtain A B where AB: "A \<inter> B = {}"
    and fr: "\<And>r. frPart cg fr to pre gg r \<subseteq> A" and to: "\<And>r. toPart cg fr to pre gg r \<subseteq> B"
    by auto
  have "rtFr st \<subseteq> A" "rtTo st \<subseteq> B" using st by auto
  from rtLoop_separated [of cg fr to pre gg A B st, OF fr to this] AB show ?thesis by auto
qed

lemma getRtPair_disjoint_aux:
  assumes "\<forall>a b. getSettled gg fr = Some a \<and> getSettled gg to = Some b \<longrightarrow> a \<noteq> b"
    and "getSettled gg fr = None \<and> pre fr \<noteq> None \<longrightarrow> fixedCands pre gg to"
    and "getSettled gg to = None \<and> pre to \<noteq> None \<longrightarrow> fixedCands pre gg fr"
  shows "fst (getRtPair cg fr to pre gg maxGrDist) \<inter> snd (getRtPair cg fr to pre gg maxGrDist) = {}"
proof (cases "getSettled gg fr \<noteq> None \<and> getSettled gg to \<noteq> None")
  case True
  then obtain a b where ab: "getSettled gg fr = Some a" "getSettled gg to = Some b" by auto
  with assms(1) have "a \<noteq> b" by blast
  then show ?thesis using ab
    by (simp add: getRtPair_def getCands_settled)
next
  case False
  have "rtFr (rtLoop cg fr to pre gg (rtInit gg maxGrDist))
                 \<inter> rtTo (rtLoop cg fr to pre gg (rtInit gg maxGrDist)) = {}"
    using assms(2,3) by (rule rtLoop_disjoint) (simp_all add: rtInit_def)
  moreover have "getRtPair cg fr to pre gg maxGrDist =
      (let st = rtLoop cg fr to pre gg (rtInit gg maxGrDist) in (rtFr st, rtTo st))"
    unfolding getRtPair_def using False by (rule if_not_P)
  ultimately show ?thesis by (simp add: Let_def)
qed

lemma getRtPairPasses_le: "getRtPairPasses cg fr to pre gg maxGrDist \<le> 10"
proof -
  have "passes (rtLoop cg fr to pre gg (rtInit gg maxGrDist)) \<le> 10"
    by (rule rtLoop_passes) (simp add: rtInit_def)
  then show ?thesis by (simp add: getRtPairPasses_def)
qed

lemma rtPass_voronoi:
  assumes "x \<in> getCands cg fr pre gg (rtDis st)" "x \<in> getCands cg to pre gg (rtDis st)"
  shows "(x \<in> rtFr (rtPass cg fr to pre gg st) \<longleftrightarrow> x \<in> rtFr st \<or> nearerFr cg gg fr to x)
       \<and> (x \<in> rtTo (rtPass cg fr to pre gg st) \<longleftrightarrow> x \<in> rtTo st \<or> \<not> nearerFr cg gg fr to x)"
  using assms by (auto simp: rtPass_sets frPart_def toPart_def)

lemma distGeo_axis: "distGeo (a, 0) (b, 0) = \<bar>a - b\<bar>"
  by (simp add: distGeo_def)

lemma getRtPair_presettled_eval:
  "getRtPair cg2 0 1 [0 \<mapsto> 7] grid1 1 = ({7}, {7})"
  by (simp add: getRtPair_def rtLoop.simps rtPass_def rtInit_def getCands_def
      getSettled_def getGrNdCands_def grid1_def cg2_def cmbGeom_def distGeo_axis nearerFr_def
      Let_def)

lemma getRtPair_selfloop_eval:
  "getRtPair cgLoop 0 0 Map.empty (grid1\<lparr>settledNds := [(0, 7)]\<rparr>) 1 = ({7}, {7})"
  by (simp add: getRtPair_def getCands_def getSettled_def grid1_def)

lemma finite_getCands: "finite (getCands cg n pre gg r)"
  by (simp add: getCands_def getGrNdCands_def split: option.splits)

lemma finite_rtPass:
  "finite (rtFr st) \<Longrightarrow> finite (rtTo st) \<Longrightarrow>
   finite (rtFr (rtPass cg fr to pre gg st)) \<and> finite (rtTo (rtPass cg fr to pre gg st))"
  by (simp add: rtPass_sets frPart_def toPart_def finite_getCands)

lemma finite_rtLoop:
  "finite (rtFr st) \<Longrightarrow> finite (rtTo st) \<Longrightarrow>
   finite (rtFr (rtLoop cg fr to pre gg st)) \<and> finite (rtTo (rtLoop cg fr to pre gg st))"
proof (induction cg fr to pre gg st rule: rtLoop.induct)
  case (1 cg fr to pre gg st)
  show ?case
  proof (cases "(rtFr st = {} \<or> rtTo st = {}) \<and> passes st < 10")
    case True
    from finite_rtPass [OF "1.prems"]
    have "finite (rtFr (rtPass cg fr to pre gg st))" "finite (rtTo (rtPass cg fr to pre gg st))"
      by simp_all
    from "1.IH" [OF True this] show ?thesis using True by (subst (1 2) rtLoop.simps) simp
  next
    case False
    then show ?thesis using "1.prems" by (subst (1 2) rtLoop.simps) auto
  qed
qed

lemma finite_getRtPair:
  "finite (fst (getRtPair cg fr to pre gg m)) \<and> finite (snd (getRtPair cg fr to pre gg m))"
  using finite_rtLoop [of "rtInit gg m" cg fr to pre gg]
  by (simp add: getRtPair_def Let_def finite_getCands rtInit_def)

text \<open>
  C4, as stated, fails in two situations. When both endpoints are settled the function
  returns the two settled cells as they are: for the two ends of a loop edge, settled on
  cell 7, both sets are {7}. And the sets grow from pass to pass: an endpoint that is
  only pre-settled on cell 7 gets 7 in the first pass, while the other endpoint, which is
  neither settled nor pre-settled and has no cell within the first radius, gets the same
  cell 7 in the third pass, when the radius has grown and 7 is nearer to it.
\<close>

theorem getRtPair_overlap:
  "fst (getRtPair cgLoop 0 0 Map.empty (grid1\<lparr>settledNds := [(0, 7)]\<rparr>) 1)
     \<inter> snd (getRtPair cgLoop 0 0 Map.empty (grid1\<lparr>settledNds := [(0, 7)]\<rparr>) 1) = {7}
   \<and> fst (getRtPair cg2 0 1 [0 \<mapsto> 7] grid1 1) \<inter> snd (getRtPair cg2 0 1 [0 \<mapsto> 7] grid1 1) = {7}"
  unfolding getRtPair_selfloop_eval getRtPair_presettled_eval by simp

text \<open>
  C4, amended: the retry loop runs at most 10 times; in every pass a cell that lies in
  both raw candidate sets is inserted on exactly one side, the from side when it is
  strictly nearer to the from endpoint and the to side otherwise; and the two returned
  sets are disjoint whenever the endpoints are not settled on one and the same cell and
  an endpoint that is only pre-settled is paired with an endpoint that is settled or
  pre-settled too.
\<close>

theorem getRtPair_disjoint:
  "getRtPairPasses cg fr to pre gg maxGrDist \<le> 10
   \<and> (\<forall>st x. x \<in> getCands cg fr pre gg (rtDis st) \<and> x \<in> getCands cg to pre gg (rtDis st) \<longrightarrow>
          (x \<in> rtFr (rtPass cg fr to pre gg st) \<longleftrightarrow> x \<in> rtFr st \<or> nearerFr cg gg fr to x)
          \<and> (x \<in> rtTo (rtPass cg fr to pre gg st) \<longleftrightarrow> x \<in> rtTo st \<or> \<not> nearerFr cg gg fr to x))
   \<and> ((\<forall>a b. getSettled gg fr = Some a \<and> getSettled gg to = Some b \<longrightarrow> a \<noteq> b)
        \<and> (getSettled gg fr = None \<and> pre fr \<noteq> None \<longrightarrow> fixedCands pre gg to)
        \<and> (getSettled gg to = None \<and> pre to \<noteq> None \<longrightarrow> fixedCands pre gg fr)
      \<longrightarrow> fst (getRtPair cg fr to pre gg maxGrDist) \<inter> snd (getRtPair cg fr to pre gg maxGrDist) = {})"
  using getRtPairPasses_le [of cg fr to pre gg maxGrDist]
    getRtPair_disjoint_aux [of gg fr to pre cg maxGrDist]
    rtPass_voronoi [of _ cg fr pre gg _ to]
  by blast

theorem getRtPair_disjoint_witness:
  "fst (getRtPair cg2 0 1 Map.empty grid1 1) \<inter> snd (getRtPair cg2 0 1 Map.empty grid1 1) = {}
   \<and> getRtPairPasses cg2 0 1 Map.empty grid1 1 \<le> 10"
  using getRtPair_disjoint [of cg2 0 1 Map.empty grid1 1]
  by (simp add: getSettled_def grid1_def)

section \<open>The cost offsets of the sinks\<close>

lemma isSettled_upd [simp]:
  "isSettled (gg\<lparr>sinkFr := h\<rparr>) = isSettled gg"
  "isSettled (gg\<lparr>sinkTo := h\<rparr>) = isSettled gg"
  "isSettled (gg\<lparr>edgCost := k\<rparr>) = isSettled gg"
  by (simp_all add: isSettled_def getSettled_def fun_eq_iff)

lemma sinkCost_upd [simp]:
  "sinkCost deps (gg\<lparr>sinkFr := h\<rparr>) = sinkCost deps gg"
  "sinkCost deps (gg\<lparr>sinkTo := h\<rparr>) = sinkCost deps gg"
  by (simp_all add: sinkCost_def fun_eq_iff)

lemma costOffset_upd [simp]:
  "costOffset deps (gg\<lparr>sinkFr := h\<rparr>) = costOffset deps gg"
  "costOffset deps (gg\<lparr>sinkTo := h\<rparr>) = costOffset deps gg"
  by (simp_all add: costOffset_def fun_eq_iff)

lemma openFr_step:
  "openFr deps fr n (gg, off) =
     (openSinkFr n (sinkCost deps gg fr n) gg, if isSettled gg fr then off else costOffset deps gg fr)"
  by (simp add: openFr_def sinkCost_def costOffset_def Let_def)

lemma openTo_step:
  "openTo deps to n (gg, off) =
     (openSinkTo n (sinkCost deps gg to n) gg, if isSettled gg to then off else costOffset deps gg to)"
  by (simp add: openTo_def sinkCost_def costOffset_def Let_def)

lemma fold_openFr:
  "fold (openFr deps fr) ns (gg, off) =
     (gg\<lparr>sinkFr := (\<lambda>n. if n \<in> set ns then Some (sinkCost deps gg fr n) else sinkFr gg n)\<rparr>,
      if ns = [] \<or> isSettled gg fr then off else costOffset deps gg fr)"
proof (induction ns arbitrary: gg off)
  case Nil
  show ?case by simp
next
  case (Cons n ns)
  have "fold (openFr deps fr) (n # ns) (gg, off) =
        fold (openFr deps fr) ns
          (openSinkFr n (sinkCost deps gg fr n) gg, if isSettled gg fr then off else costOffset deps gg fr)"
    by (simp add: openFr_step)
  also have "\<dots> = (gg\<lparr>sinkFr := (\<lambda>m. if m \<in> set (n # ns) then Some (sinkCost deps gg fr m)
                                       else sinkFr gg m)\<rparr>,
                     if isSettled gg fr then off else costOffset deps gg fr)"
    unfolding Cons.IH
    by (auto simp: openSinkFr_def fun_eq_iff)
  finally show ?case by simp
qed

lemma fold_openTo:
  "fold (openTo deps to) ns (gg, off) =
     (gg\<lparr>sinkTo := (\<lambda>n. if n \<in> set ns then Some (sinkCost deps gg to n) else sinkTo gg n)\<rparr>,
      if ns = [] \<or> isSettled gg to then off else costOffset deps gg to)"
proof (induction ns arbitrary: gg off)
  case Nil
  show ?case by simp
next
  case (Cons n ns)
  have "fold (openTo deps to) (n # ns) (gg, off) =
        fold (openTo deps to) ns
          (openSinkTo n (sinkCost deps gg to n) gg, if isSettled gg to then off else costOffset deps gg to)"
    by (simp add: openTo_step)
  also have "\<dots> = (gg\<lparr>sinkTo := (\<lambda>m. if m \<in> set (n # ns) then Some (sinkCost deps gg to m)
                                       else sinkTo gg m)\<rparr>,
                     if isSettled gg to then off else costOffset deps gg to)"
    unfolding Cons.IH
    by (auto simp: openSinkTo_def fun_eq_iff)
  finally show ?case by simp
qed

lemma openSinks_eq:
  assumes "finite frGrNds" "finite toGrNds" "frGrNds \<noteq> {}" "toGrNds \<noteq> {}"
  shows "openSinks deps fr to frGrNds toGrNds gg =
     \<lparr>grid = gg\<lparr>sinkFr := (\<lambda>n. if n \<in> frGrNds then Some (sinkCost deps gg fr n) else sinkFr gg n),
                  sinkTo := (\<lambda>n. if n \<in> toGrNds then Some (sinkCost deps gg to n) else sinkTo gg n)\<rparr>,
      costOffsetFrom = costOffset deps gg fr, costOffsetTo = costOffset deps gg to\<rparr>"
proof -
  define ggA where
    "ggA = gg\<lparr>sinkFr := (\<lambda>n. if n \<in> frGrNds then Some (sinkCost deps gg fr n) else sinkFr gg n)\<rparr>"
  have nf: "sorted_list_of_set frGrNds \<noteq> []" and nt: "sorted_list_of_set toGrNds \<noteq> []"
    using assms by simp_all
  have fr: "fold (openFr deps fr) (sorted_list_of_set frGrNds) (gg, 0) = (ggA, costOffset deps gg fr)"
    unfolding fold_openFr ggA_def using assms(1) nf by (simp add: costOffset_def)
  have to: "fold (openTo deps to) (sorted_list_of_set toGrNds) (ggA, 0) =
      (ggA\<lparr>sinkTo := (\<lambda>n. if n \<in> toGrNds then Some (sinkCost deps ggA to n) else sinkTo ggA n)\<rparr>,
       costOffset deps ggA to)"
    unfolding fold_openTo using assms(2) nt by (simp add: costOffset_def)
  have same: "sinkCost deps ggA = sinkCost deps gg" "costOffset deps ggA = costOffset deps gg"
    "sinkTo ggA = sinkTo gg"
    by (simp_all add: ggA_def)
  show ?thesis
    unfolding openSinks_def Let_def fr to fst_conv snd_conv same
    by (simp add: ggA_def)
qed

lemma removeOffsets_cost:
  "cost (removeOffsets deps eL offTo offFrom gg) e =
     (if e = last eL
      then (if e = hd eL then fl deps (fl deps (cost gg e - offTo) - offFrom)
            else fl deps (cost gg e - offFrom))
      else if e = hd eL then fl deps (cost gg e - offTo) else cost gg e)"
  by (simp add: removeOffsets_def setCost_def cost_def Let_def)

lemma removeOffsets_frame:
  "removeOffsets deps eL offTo offFrom gg = gg\<lparr>edgCost := edgCost (removeOffsets deps eL offTo offFrom gg)\<rparr>"
  by (simp add: removeOffsets_def setCost_def Let_def)


lemma getRtPair_grid2: "getRtPair cg2 0 1 [0 \<mapsto> 7] grid2 1 = ({7}, {9})"
proof -
  have s0: "getSettled grid2 0 = None" and s1: "getSettled grid2 1 = Some 9"
    by (simp_all add: getSettled_def grid2_def)
  have c0: "getCands cg2 0 [0 \<mapsto> 7] grid2 r = {7}" for r
    unfolding getCands_def s0 by (simp add: grid2_def)
  have c1: "getCands cg2 1 [0 \<mapsto> 7] grid2 r = {9}" for r
    unfolding getCands_def s1 by simp
  have p: "rtPass cg2 0 1 [0 \<mapsto> 7] grid2 (rtInit grid2 1)
           = \<lparr>rtFr = {7}, rtTo = {9}, rtDis = cellSize grid2 * 1, passes = 1\<rparr>"
    unfolding rtPass_def c0 c1 by (auto simp: rtInit_def Let_def)
  have "rtLoop cg2 0 1 [0 \<mapsto> 7] grid2 (rtInit grid2 1)
        = \<lparr>rtFr = {7}, rtTo = {9}, rtDis = cellSize grid2 * 1, passes = 1\<rparr>"
    by (subst rtLoop.simps, subst rtLoop.simps, unfold p) (simp add: rtInit_def)
  then show ?thesis unfolding getRtPair_def s0 by (simp add: Let_def)
qed

lemma routeEdge_path:
  assumes "\<And>g frs tos cutoff gp. shortestPath rdeps g frs tos cutoff gp = (eL, nL)"
    and "eL \<noteq> []" "nL \<noteq> []"
    and "getRtPair cg (efr cmbEdg) (eto cmbEdg) settled gg maxGrDist = (F, T)"
    and "F \<noteq> {}" "T \<noteq> {}"
  shows "\<exists>gg' d'. routeEdge rdeps cg cmbEdg settled gg d globCutoff maxGrDist gp = Routed gg' d'"
  by (simp add: routeEdge_def Let_def assms split: prod.splits)

text \<open>
  C3: whenever an edge is routed, the sinks were opened on the given grid for the
  candidate cells of its two endpoints (exchanged when the target side has more
  candidates): every source sink of an endpoint that is not settled at the additional
  cost p_45 - p_135 + ndMovePen(endpoint, cell), every sink of a settled endpoint at 0,
  the same for the target sinks, and nothing else of the grid changed. The search ran
  on that grid, after the node costs of the settled endpoints were written. After the
  search the first edge of the path costs \<^verbatim>\<open>costOffsetTo\<close> less and the last edge
  \<^verbatim>\<open>costOffsetFrom\<close> less, where the offset of an endpoint is p_45 - p_135 when it is not
  settled and 0 when it is (an edge that is both first and last loses both, one after
  the other); no other edge cost and nothing else of the grid changes. It is this grid
  that \<^verbatim>\<open>Drawing::draw\<close> reads for the score, before the sinks are closed and the
  result is settled. The displacement penalty ndMovePen is no part of the offsets and
  stays in the cost of the sink. Every sum and difference is the rounded one.
\<close>

theorem route_sink_offsets:
  assumes "routeEdge deps cg cmbEdg settled gg drawing globCutoff maxGrDist geoPensMap = Routed gg' d'"
  shows "\<exists>frCmbNd toCmbNd frGrNds toGrNds rev g0 gS co eL nL offFr offTo gD.
      (let P = getRtPair cg (efr cmbEdg) (eto cmbEdg) settled gg maxGrDist
       in if card (snd P) > card (fst P)
          then frCmbNd = eto cmbEdg \<and> toCmbNd = efr cmbEdg \<and> frGrNds = snd P \<and> toGrNds = fst P \<and> rev
          else frCmbNd = efr cmbEdg \<and> toCmbNd = eto cmbEdg \<and> frGrNds = fst P \<and> toGrNds = snd P
               \<and> \<not> rev)
    \<and> frGrNds \<noteq> {} \<and> toGrNds \<noteq> {}
    \<and> g0 = grid (openSinks deps frCmbNd toCmbNd frGrNds toGrNds gg)
    \<and> g0 = gg\<lparr>sinkFr := sinkFr g0, sinkTo := sinkTo g0\<rparr>
    \<and> (\<forall>n. sinkFr g0 n =
            (if n \<in> frGrNds
             then Some (if isSettled gg frCmbNd then 0
                        else fl deps (fl deps (p_45 (pens gg) - p_135 (pens gg))
                                      + ndMovePen deps frCmbNd n))
             else sinkFr gg n))
    \<and> (\<forall>n. sinkTo g0 n =
            (if n \<in> toGrNds
             then Some (if isSettled gg toCmbNd then 0
                        else fl deps (fl deps (p_45 (pens gg) - p_135 (pens gg))
                                      + ndMovePen deps toCmbNd n))
             else sinkTo gg n))
    \<and> gS = (let g1 = (if card frGrNds = 1 \<and> isSettled g0 frCmbNd
                        then writeNdCosts deps (Min frGrNds) frCmbNd cmbEdg g0 else g0)
             in if card toGrNds = 1 \<and> isSettled g1 toCmbNd
                then writeNdCosts deps (Min toGrNds) toCmbNd cmbEdg g1 else g1)
    \<and> shortestPath deps gS frGrNds toGrNds co (map_option (\<lambda>m. (m, cmbEdg)) geoPensMap) = (eL, nL)
    \<and> eL \<noteq> [] \<and> nL \<noteq> []
    \<and> offFr = (if isSettled gg frCmbNd then 0 else fl deps (p_45 (pens gg) - p_135 (pens gg)))
    \<and> offTo = (if isSettled gg toCmbNd then 0 else fl deps (p_45 (pens gg) - p_135 (pens gg)))
    \<and> gD = removeOffsets deps eL offTo offFr gS
    \<and> gD = gS\<lparr>edgCost := edgCost gD\<rparr>
    \<and> (\<forall>e. cost gD e =
            (if e = last eL
             then (if e = hd eL then fl deps (fl deps (cost gS e - offTo) - offFr)
                   else fl deps (cost gS e - offFr))
             else if e = hd eL then fl deps (cost gS e - offTo) else cost gS e))
    \<and> d' = drawingDraw deps cmbEdg eL rev gD drawing
    \<and> gg' = settleRes deps (last nL) (hd nL) (closeSinks frGrNds toGrNds gD) frCmbNd toCmbNd eL cmbEdg"
proof -
  obtain F T where rt: "getRtPair cg (efr cmbEdg) (eto cmbEdg) settled gg maxGrDist = (F, T)"
    by (cases "getRtPair cg (efr cmbEdg) (eto cmbEdg) settled gg maxGrDist")
  have fin: "finite F" "finite T"
    using finite_getRtPair [of cg "efr cmbEdg" "eto cmbEdg" settled gg maxGrDist]
    by (simp_all add: rt)
  have ne: "F \<noteq> {}" "T \<noteq> {}"
    using assms by (auto simp: routeEdge_def rt Let_def)
  define sw where "sw \<longleftrightarrow> card T > card F"
  define fr where "fr = (if sw then eto cmbEdg else efr cmbEdg)"
  define to where "to = (if sw then efr cmbEdg else eto cmbEdg)"
  define frs where "frs = (if sw then T else F)"
  define tos where "tos = (if sw then F else T)"
  define sinks where "sinks = openSinks deps fr to frs tos gg"
  define g0 where "g0 = grid sinks"
  define g1 where "g1 = (if card frs = 1 \<and> isSettled g0 fr
                         then writeNdCosts deps (Min frs) fr cmbEdg g0 else g0)"
  define gS where "gS = (if card tos = 1 \<and> isSettled g1 to
                         then writeNdCosts deps (Min tos) to cmbEdg g1 else g1)"
  define cut where "cut = (if score drawing = PInf then score drawing
                           else dround (fl deps) (dminus globCutoff (score drawing)))"
  define co where "co = dround (fl deps)
                          (dplusr (dround (fl deps) (dplusr cut (costOffsetTo sinks)))
                             (costOffsetFrom sinks))"
  define eL where
    "eL = fst (shortestPath deps gS frs tos co (map_option (\<lambda>m. (m, cmbEdg)) geoPensMap))"
  define nL where
    "nL = snd (shortestPath deps gS frs tos co (map_option (\<lambda>m. (m, cmbEdg)) geoPensMap))"
  have sp: "shortestPath deps gS frs tos co (map_option (\<lambda>m. (m, cmbEdg)) geoPensMap) = (eL, nL)"
    by (simp add: eL_def nL_def)
  define gD where "gD = removeOffsets deps eL (costOffsetTo sinks) (costOffsetFrom sinks) gS"
  have re: "routeEdge deps cg cmbEdg settled gg drawing globCutoff maxGrDist geoPensMap =
      (if nL = [] then NotRouted (closeSinks frs tos gS)
       else if eL = [] then RouteUndefined
       else Routed (settleRes deps (last nL) (hd nL) (closeSinks frs tos gD) fr to eL cmbEdg)
              (drawingDraw deps cmbEdg eL sw gD drawing))"
  proof (cases sw)
    case True
    then have c: "card F < card T" by (simp add: sw_def)
    have defs: "fr = eto cmbEdg" "to = efr cmbEdg" "frs = T" "tos = F" "sw = True"
      using True by (simp_all add: fr_def to_def frs_def tos_def)
    show ?thesis
      unfolding routeEdge_def rt gD_def eL_def nL_def co_def cut_def gS_def g1_def g0_def
        sinks_def defs
      by (simp only: rt Let_def prod.case ne c if_True if_False simp_thms case_prod_beta fst_conv
          snd_conv)
  next
    case False
    then have c: "\<not> card F < card T" by (simp add: sw_def)
    have defs: "fr = efr cmbEdg" "to = eto cmbEdg" "frs = F" "tos = T" "sw = False"
      using False by (simp_all add: fr_def to_def frs_def tos_def)
    show ?thesis
      unfolding routeEdge_def rt gD_def eL_def nL_def co_def cut_def gS_def g1_def g0_def
        sinks_def defs
      by (simp only: rt Let_def prod.case ne c if_True if_False simp_thms case_prod_beta fst_conv
          snd_conv)
  qed
  from assms have nl: "nL \<noteq> []" and el: "eL \<noteq> []"
    and gg': "gg' = settleRes deps (last nL) (hd nL) (closeSinks frs tos gD) fr to eL cmbEdg"
    and d': "d' = drawingDraw deps cmbEdg eL sw gD drawing"
    unfolding re by (auto split: if_splits)
  have finfs: "finite frs" "finite tos" "frs \<noteq> {}" "tos \<noteq> {}"
    using fin ne by (simp_all add: frs_def tos_def)
  note os = openSinks_eq [OF finfs, of deps fr to gg]
  have g0eq: "g0 = gg\<lparr>sinkFr := (\<lambda>n. if n \<in> frs then Some (sinkCost deps gg fr n) else sinkFr gg n),
                       sinkTo := (\<lambda>n. if n \<in> tos then Some (sinkCost deps gg to n) else sinkTo gg n)\<rparr>"
    and offF: "costOffsetFrom sinks = costOffset deps gg fr"
    and offT: "costOffsetTo sinks = costOffset deps gg to"
    unfolding g0_def sinks_def os by simp_all
  have sel: "(let P = getRtPair cg (efr cmbEdg) (eto cmbEdg) settled gg maxGrDist
       in if card (snd P) > card (fst P)
          then fr = eto cmbEdg \<and> to = efr cmbEdg \<and> frs = snd P \<and> tos = fst P \<and> sw
          else fr = efr cmbEdg \<and> to = eto cmbEdg \<and> frs = fst P \<and> tos = snd P \<and> \<not> sw)"
    by (simp add: rt Let_def fr_def to_def frs_def tos_def sw_def)
  have gSeq: "gS = (let g1 = (if card frs = 1 \<and> isSettled g0 fr
                        then writeNdCosts deps (Min frs) fr cmbEdg g0 else g0)
             in if card tos = 1 \<and> isSettled g1 to
                then writeNdCosts deps (Min tos) to cmbEdg g1 else g1)"
    by (simp add: gS_def g1_def Let_def)
  have gDeq: "gD = removeOffsets deps eL (costOffset deps gg to) (costOffset deps gg fr) gS"
    by (simp add: gD_def offF offT)
  show ?thesis
    apply (rule exI [of _ fr], rule exI [of _ to], rule exI [of _ frs], rule exI [of _ tos])
    apply (rule exI [of _ sw], rule exI [of _ g0], rule exI [of _ gS], rule exI [of _ co])
    apply (rule exI [of _ eL], rule exI [of _ nL])
    apply (rule exI [of _ "costOffset deps gg fr"], rule exI [of _ "costOffset deps gg to"])
    apply (rule exI [of _ gD])
    apply (intro conjI)
    subgoal by (rule sel)
    subgoal by (rule finfs)
    subgoal by (rule finfs)
    subgoal by (simp add: g0_def sinks_def)
    subgoal by (subst (1 2 3) g0eq) simp
    subgoal by (subst g0eq) (simp add: sinkCost_def)
    subgoal by (subst g0eq) (simp add: sinkCost_def)
    subgoal by (rule gSeq)
    subgoal by (rule sp)
    subgoal by (rule el)
    subgoal by (rule nl)
    subgoal by (simp add: costOffset_def)
    subgoal by (simp add: costOffset_def)
    subgoal by (rule gDeq)
    subgoal unfolding gDeq by (rule removeOffsets_frame)
    subgoal unfolding gDeq by (simp add: removeOffsets_cost)
    subgoal by (rule d')
    subgoal by (rule gg')
    done
qed

theorem route_sink_offsets_witness:
  "\<exists>g0 gD gg'.
      routeEdge rdepsR cg2 \<lparr>efr = 0, eto = 1, eid = 0\<rparr> [0 \<mapsto> 7] grid2 newDrawing PInf 1 None
        = Routed gg' (newDrawing\<lparr>score := Fin 28\<rparr>)
    \<and> g0 = grid (openSinks rdepsR 0 1 {7} {9} grid2)
    \<and> sinkFr g0 7 = Some 7 \<and> sinkTo g0 9 = Some 0
    \<and> gD = removeOffsets rdepsR [4, 5, 6] 0 2 g0
    \<and> cost gD 4 = 10 \<and> cost gD 5 = 10 \<and> cost gD 6 = 8"
proof -
  let ?e = "\<lparr>efr = 0, eto = 1, eid = 0\<rparr>"
  have rt: "getRtPair cg2 (efr ?e) (eto ?e) [0 \<mapsto> 7] grid2 1 = ({7}, {9})"
    using getRtPair_grid2 by simp
  have sp: "shortestPath rdepsR g frs tos cutoff gp = ([4, 5, 6], [9, 8, 7])" for g frs tos cutoff gp
    by (simp add: rdepsR_def)
  have "\<exists>gg' d'. routeEdge rdepsR cg2 ?e [0 \<mapsto> 7] grid2 newDrawing PInf 1 None = Routed gg' d'"
    by (rule routeEdge_path [of rdepsR "[4, 5, 6]" "[9, 8, 7]", OF sp _ _ rt]) simp_all
  then obtain gg' d' where
    r: "routeEdge rdepsR cg2 ?e [0 \<mapsto> 7] grid2 newDrawing PInf 1 None = Routed gg' d'"
    by blast
  from route_sink_offsets [OF r]
  obtain frCmbNd toCmbNd frGrNds toGrNds rev g0 gS co eL nL offFr offTo gD where
    sel: "(let P = getRtPair cg2 (efr ?e) (eto ?e) [0 \<mapsto> 7] grid2 1
           in if card (snd P) > card (fst P)
              then frCmbNd = eto ?e \<and> toCmbNd = efr ?e \<and> frGrNds = snd P \<and> toGrNds = fst P \<and> rev
              else frCmbNd = efr ?e \<and> toCmbNd = eto ?e \<and> frGrNds = fst P \<and> toGrNds = snd P
                   \<and> \<not> rev)"
    and g0: "g0 = grid (openSinks rdepsR frCmbNd toCmbNd frGrNds toGrNds grid2)"
    and fr0: "g0 = grid2\<lparr>sinkFr := sinkFr g0, sinkTo := sinkTo g0\<rparr>"
    and sf: "\<forall>n. sinkFr g0 n =
            (if n \<in> frGrNds
             then Some (if isSettled grid2 frCmbNd then 0
                        else fl rdepsR (fl rdepsR (p_45 (pens grid2) - p_135 (pens grid2))
                                      + ndMovePen rdepsR frCmbNd n))
             else sinkFr grid2 n)"
    and st: "\<forall>n. sinkTo g0 n =
            (if n \<in> toGrNds
             then Some (if isSettled grid2 toCmbNd then 0
                        else fl rdepsR (fl rdepsR (p_45 (pens grid2) - p_135 (pens grid2))
                                      + ndMovePen rdepsR toCmbNd n))
             else sinkTo grid2 n)"
    and gS: "gS = (let g1 = (if card frGrNds = 1 \<and> isSettled g0 frCmbNd
                        then writeNdCosts rdepsR (Min frGrNds) frCmbNd ?e g0 else g0)
             in if card toGrNds = 1 \<and> isSettled g1 toCmbNd
                then writeNdCosts rdepsR (Min toGrNds) toCmbNd ?e g1 else g1)"
    and path: "shortestPath rdepsR gS frGrNds toGrNds co (map_option (\<lambda>m. (m, ?e)) None) = (eL, nL)"
    and offFr: "offFr = (if isSettled grid2 frCmbNd then 0
                         else fl rdepsR (p_45 (pens grid2) - p_135 (pens grid2)))"
    and offTo: "offTo = (if isSettled grid2 toCmbNd then 0
                         else fl rdepsR (p_45 (pens grid2) - p_135 (pens grid2)))"
    and gD: "gD = removeOffsets rdepsR eL offTo offFr gS"
    and costs: "\<forall>e. cost gD e =
            (if e = last eL
             then (if e = hd eL then fl rdepsR (fl rdepsR (cost gS e - offTo) - offFr)
                   else fl rdepsR (cost gS e - offFr))
             else if e = hd eL then fl rdepsR (cost gS e - offTo) else cost gS e)"
    and d': "d' = drawingDraw rdepsR ?e eL rev gD newDrawing"
    by blast
  from sel have ends: "frCmbNd = 0" "toCmbNd = 1" "frGrNds = {7}" "toGrNds = {9}"
    unfolding rt by (simp_all add: Let_def)
  have set0: "\<not> isSettled grid2 0" and set1: "isSettled grid2 1"
    by (simp_all add: isSettled_def getSettled_def grid2_def)
  have pen: "p_45 (pens grid2) - p_135 (pens grid2) = 2" by (simp add: grid2_def)
  have flr: "fl rdepsR x = x" for x by (simp add: rdepsR_def)
  have mv: "ndMovePen rdepsR c n = 5" for c n by (simp add: rdepsR_def)
  have wr: "writeNdCosts rdepsR n c e g = g" for n c e g
    by (simp add: writeNdCosts_def rdepsR_def Let_def)
  have gS0: "gS = g0" unfolding gS wr by (simp add: Let_def)
  have el: "eL = [4, 5, 6]" using path by (simp add: sp)
  have oF: "offFr = 2" unfolding offFr ends using set0 by (simp add: pen flr)
  have oT: "offTo = 0" unfolding offTo ends using set1 by simp
  have c0: "cost g0 e = 10" for e
    by (subst fr0) (simp add: cost_def grid2_def)
  have cD: "cost gD 4 = 10" "cost gD 5 = 10" "cost gD 6 = 8"
    using costs [rule_format, of 4] costs [rule_format, of 5] costs [rule_format, of 6]
    unfolding el gS0 oF oT flr c0 by simp_all
  have s7: "sinkFr g0 7 = Some 7"
    using sf [rule_format, of 7] unfolding ends flr pen mv using set0 by simp
  have s9: "sinkTo g0 9 = Some 0"
    using st [rule_format, of 9] unfolding ends using set1 by simp
  have "d' = newDrawing\<lparr>score := Fin (sum_list (map (edgCost gD) [4, 5, 6]))\<rparr>"
    unfolding d' el by (simp add: rdepsR_def)
  then have dv: "d' = newDrawing\<lparr>score := Fin 28\<rparr>"
    using cD by (simp add: cost_def)
  show ?thesis
    using r dv g0 s7 s9 gD cD unfolding ends el oF oT gS0 by blast
qed

section \<open>Phase 1\<close>

lemma phase1_from:
  assumes "i \<le> tries"
  shows
  "(phase1 deps drawFn cg initOrder i (failedState deps drawFn cg initOrder st0 i) = Inl NoEmbeddingFoundExc
      \<longleftrightarrow> (\<forall>j. i \<le> j \<and> j < tries \<longrightarrow> routeFailed (tryOutcome deps drawFn cg initOrder st0 j)))
   \<and> (\<forall>st n. phase1 deps drawFn cg initOrder i (failedState deps drawFn cg initOrder st0 i) = Inr (st, n)
        \<longrightarrow> i < n \<and> n \<le> tries \<and> allRouted (tryOutcome deps drawFn cg initOrder st0 (n - 1))
            \<and> (\<forall>j. i \<le> j \<and> j < n - 1 \<longrightarrow> routeFailed (tryOutcome deps drawFn cg initOrder st0 j)))"
  using assms
proof (induction "tries - i" arbitrary: i)
  case 0
  then have "i = tries" by simp
  then show ?case by (subst (1 2) phase1.simps) auto
next
  case (Suc k)
  then have lt: "i < tries" by simp
  let ?st = "failedState deps drawFn cg initOrder st0 i"
  let ?res = "tryOutcome deps drawFn cg initOrder st0 i"
  have res: "tryDraw deps drawFn cg initOrder i ?st = ?res" by (simp add: tryOutcome_def)
  show ?case
  proof (cases ?res)
    case DrawUndefined
    then have "phase1 deps drawFn cg initOrder i ?st = Inl UndefinedBehaviour"
      using lt res by (subst phase1.simps) simp
    moreover have "\<not> routeFailed ?res" using DrawUndefined by simp
    ultimately show ?thesis using lt by auto
  next
    case (DrawRes locFound gg d)
    show ?thesis
    proof (cases locFound)
      case True
      then have "phase1 deps drawFn cg initOrder i ?st
                 = Inr (afterFoundTry deps cg initOrder i ?st gg d, i + 1)"
        using lt res DrawRes by (subst phase1.simps) simp
      moreover have "\<not> routeFailed ?res" "allRouted ?res" using DrawRes True by simp_all
      ultimately show ?thesis using lt by auto
    next
      case False
      have next_st: "failedState deps drawFn cg initOrder st0 (Suc i)
                     = afterFailedTry deps cg initOrder i ?st gg d"
        using res DrawRes by (simp add: Let_def)
      have step: "phase1 deps drawFn cg initOrder i ?st
                  = phase1 deps drawFn cg initOrder (Suc i)
                      (failedState deps drawFn cg initOrder st0 (Suc i))"
        using lt res DrawRes False unfolding next_st by (subst phase1.simps) simp
      have k: "k = tries - Suc i" using Suc.hyps(2) by simp
      have le: "Suc i \<le> tries" using lt by simp
      note IH = Suc.hyps(1) [OF k le]
      have failed: "routeFailed ?res" using DrawRes False by simp
      have a: "(\<forall>j. i \<le> j \<and> j < tries \<longrightarrow> routeFailed (tryOutcome deps drawFn cg initOrder st0 j))
               \<longleftrightarrow> (\<forall>j. Suc i \<le> j \<and> j < tries \<longrightarrow> routeFailed (tryOutcome deps drawFn cg initOrder st0 j))"
        using failed by (metis Suc_leI le_neq_implies_less Suc_leD)
      have b: "(\<forall>j. i \<le> j \<and> j < m \<longrightarrow> routeFailed (tryOutcome deps drawFn cg initOrder st0 j))
               \<longleftrightarrow> (\<forall>j. Suc i \<le> j \<and> j < m \<longrightarrow> routeFailed (tryOutcome deps drawFn cg initOrder st0 j))" for m
        using failed by (metis Suc_leI le_neq_implies_less Suc_leD)
      show ?thesis unfolding step a using IH b by (auto simp: Suc_lessD)
    qed
  qed
qed

lemma phase2Iter_failure: "phase2Iter deps drawFn cg maxGrDist restrLocSearch batches st = Inl f
  \<Longrightarrow> f = UndefinedBehaviour"
  by (auto simp: phase2Iter_def Let_def split: option.splits)

lemma phase2_failure: "phase2 deps drawFn cg maxGrDist restrLocSearch batches iters st = Inl f
  \<Longrightarrow> f = UndefinedBehaviour"
proof (induction deps drawFn cg maxGrDist restrLocSearch batches iters st rule: phase2.induct)
  case (1 deps drawFn cg maxGrDist restrLocSearch batches iters st)
  show ?case
  proof (cases "iters < ITERS")
    case True
    show ?thesis
    proof (cases "phase2Iter deps drawFn cg maxGrDist restrLocSearch batches st")
      case (Inl g)
      then have "f = g" using "1.prems" True by (subst (asm) phase2.simps) simp
      then show ?thesis using phase2Iter_failure [OF Inl] by simp
    next
      case (Inr r)
      obtain st' stop where r: "r = (st', stop)" by (cases r)
      show ?thesis
      proof (cases stop)
        case True
        then show ?thesis using "1.prems" \<open>iters < ITERS\<close> Inr r
          by (subst (asm) phase2.simps) simp
      next
        case False
        have "phase2 deps drawFn cg maxGrDist restrLocSearch batches (iters + 1) st' = Inl f"
          using "1.prems" True Inr r False by (subst (asm) phase2.simps) simp
        from "1.IH" [OF True Inr r [symmetric] False this] show ?thesis .
      qed
    qed
  next
    case False
    then show ?thesis using "1.prems" by (subst (asm) phase2.simps) simp
  qed
qed

lemma draw_NoEmbeddingFound_iff_phase1:
  "(draw deps rdeps cg maxGrDist restrLocSearch enfGeoPen obstacles seed = Inl NoEmbeddingFoundExc)
   = (phase1 deps (drawFnOf rdeps cg maxGrDist (suGeoPens (drawSetup deps cg enfGeoPen obstacles seed)))
        cg (suOrder (drawSetup deps cg enfGeoPen obstacles seed)) 0
        (suState (drawSetup deps cg enfGeoPen obstacles seed)) = Inl NoEmbeddingFoundExc)"
  by (auto simp: draw_def Let_def split: sum.splits prod.splits dest: phase2_failure)

lemma routeEdge_no_path:
  assumes "\<And>g frs tos cutoff gp. shortestPath rdeps g frs tos cutoff gp = ([], [])"
  shows "\<exists>gg'. routeEdge rdeps cg cmbEdg settled gg d globCutoff maxGrDist gp = NotRouted gg'"
  by (simp add: routeEdge_def Let_def assms split: prod.splits)

lemma drawOrd_no_path:
  assumes "\<And>g frs tos cutoff gp. shortestPath rdeps g frs tos cutoff gp = ([], [])"
    and "ord \<noteq> []"
  shows "routeFailed (drawOrd rdeps cg ord settled gg d globCutoff maxGrDist gp)"
proof -
  from assms(2) obtain e es where ord: "ord = e # es" by (cases ord) auto
  from routeEdge_no_path [OF assms(1), of cg e settled gg d globCutoff maxGrDist gp]
  obtain gg' where "routeEdge rdeps cg e settled gg d globCutoff maxGrDist gp = NotRouted gg'" ..
  then show ?thesis by (simp add: ord)
qed

lemma getOrdering_cg2_nonempty: "fst (getOrdering cg2 cmp rand seed randr) \<noteq> []"
proof -
  have "set (getEdgs cg2) \<noteq> {}" by (simp add: getEdgs_def cg2_def)
  then show ?thesis using getOrdering_props [of cg2 cmp rand seed randr] by auto
qed

text \<open>
  C1: the top-level draw throws \<^verbatim>\<open>NoEmbeddingFoundExc\<close> if and only if each of the 100
  tries fails to route all its edges; and when Phase 1 ends without it, it has made
  between 1 and 100 tries, the last of them routed every edge and all tries before it
  failed. A try that fails only leads to the next try. (The outcome of try j is the
  outcome in the state the failed tries before it leave.)
\<close>

theorem draw_tries:
  "(draw deps rdeps cg maxGrDist restrLocSearch enfGeoPen obstacles seed = Inl NoEmbeddingFoundExc)
     = (\<forall>j < 100. routeFailed
          (tryOutcome deps (drawFnOf rdeps cg maxGrDist (suGeoPens (drawSetup deps cg enfGeoPen obstacles seed)))
             cg (suOrder (drawSetup deps cg enfGeoPen obstacles seed))
             (suState (drawSetup deps cg enfGeoPen obstacles seed)) j))
   \<and> (\<forall>st n. phase1 deps (drawFnOf rdeps cg maxGrDist (suGeoPens (drawSetup deps cg enfGeoPen obstacles seed)))
               cg (suOrder (drawSetup deps cg enfGeoPen obstacles seed)) 0
               (suState (drawSetup deps cg enfGeoPen obstacles seed)) = Inr (st, n)
        \<longrightarrow> 1 \<le> n \<and> n \<le> 100
            \<and> allRouted
                 (tryOutcome deps (drawFnOf rdeps cg maxGrDist (suGeoPens (drawSetup deps cg enfGeoPen obstacles seed)))
                    cg (suOrder (drawSetup deps cg enfGeoPen obstacles seed))
                    (suState (drawSetup deps cg enfGeoPen obstacles seed)) (n - 1))
            \<and> (\<forall>j < n - 1. routeFailed
                 (tryOutcome deps (drawFnOf rdeps cg maxGrDist (suGeoPens (drawSetup deps cg enfGeoPen obstacles seed)))
                    cg (suOrder (drawSetup deps cg enfGeoPen obstacles seed))
                    (suState (drawSetup deps cg enfGeoPen obstacles seed)) j)))"
proof -
  let ?su = "drawSetup deps cg enfGeoPen obstacles seed"
  let ?f = "drawFnOf rdeps cg maxGrDist (suGeoPens ?su)"
  have "0 \<le> tries" by simp
  from phase1_from [OF this, of deps ?f cg "suOrder ?su" "suState ?su"]
  show ?thesis
    unfolding draw_NoEmbeddingFound_iff_phase1
    by (simp add: tries_def) (metis One_nat_def Suc_leI)
qed

theorem draw_tries_witness:
  "draw depsE rdepsE cg2 1 False 0 [] 0 = Inl NoEmbeddingFoundExc"
proof -
  have np: "\<And>g frs tos cutoff gp. shortestPath rdepsE g frs tos cutoff gp = ([], [])"
    by (simp add: rdepsE_def)
  let ?su = "drawSetup depsE cg2 0 [] 0"
  have ord0: "suOrder ?su \<noteq> []"
    by (simp add: drawSetup_def Let_def getOrdering_cg2_nonempty)
  have "routeFailed (tryOutcome depsE (drawFnOf rdepsE cg2 1 (suGeoPens ?su)) cg2 (suOrder ?su)
                       (suState ?su) j)" for j
    unfolding tryOutcome_def tryDraw_def drawFnOf_def
    by (rule drawOrd_no_path [OF np]) (simp add: iterOrderOf_def ord0 getOrdering_cg2_nonempty)
  then show ?thesis using draw_tries [of depsE rdepsE cg2 1 False 0 "[]" 0] by blast
qed

section \<open>Phase 2\<close>

lemma dless_trans: "dless a b \<Longrightarrow> dless b c \<Longrightarrow> dless a c"
  by (cases a; cases b; cases c) auto

lemma dless_irrefl: "\<not> dless a a"
  by (cases a) auto

lemma redInv_step: "redInv bs k r \<Longrightarrow> redInv bs (Suc k) (reduceStep bs k r)"
proof -
  assume inv: "redInv bs k r"
  show ?thesis
  proof (cases "dless (score (bs ! k)) (bestScore r)")
    case True
    have "\<not> dless (score (bs ! j)) (score (bs ! k))" if "j < Suc k" for j
    proof (cases "j = k")
      case True
      then show ?thesis by (simp add: dless_irrefl)
    next
      case False
      then have jk: "j < k" using that by simp
      show ?thesis
      proof
        assume "dless (score (bs ! j)) (score (bs ! k))"
        then have "dless (score (bs ! j)) (bestScore r)" using True by (rule dless_trans)
        then show False using inv jk by (auto simp: redInv_def split: option.splits)
      qed
    qed
    moreover have "dless (score (bs ! k)) PInf"
      using True inv by (cases "score (bs ! k)") (auto simp: redInv_def split: option.splits)
    ultimately show ?thesis using True by (simp add: redInv_def reduceStep_def)
  next
    case False
    then show ?thesis using inv
      by (auto simp: redInv_def reduceStep_def less_Suc_eq split: option.splits)
  qed
qed

lemma redInv_fold: "redInv bs 0 r \<Longrightarrow> redInv bs n (fold (reduceStep bs) [0..<n] r)"
  by (induction n) (simp_all add: redInv_step)

lemma reduce_inv: "redInv bs jobs (reduce bs)"
  unfolding reduce_def by (rule redInv_fold) (simp add: redInv_def)


lemma reduce_None:
  "(bestCore (reduce bs) = None) = (\<forall>j<jobs. \<not> dless (score (bs ! j)) PInf)"
  using reduce_inv [of bs] by (auto simp: redInv_def split: option.splits)


lemma worker_empty:
  "worker deps drawFn cg maxGrDist restrLocSearch d [] gg = Some \<lparr>wGrid = gg, bestFrIter = newDrawing\<rparr>"
  by (simp add: worker_def)

lemma phase2Iter_no_batches:
  assumes "\<forall>b<jobs. batches ! b = []"
  shows "phase2Iter deps drawFn cg maxGrDist restrLocSearch batches st = Inl UndefinedBehaviour"
proof -
  let ?ws = "map (\<lambda>b. \<lparr>wGrid = ggsOf st ! b, bestFrIter = newDrawing\<rparr>) [0..<jobs]"
  have rw: "runWorkers deps drawFn cg maxGrDist restrLocSearch batches st = map Some ?ws"
    using assms by (simp add: runWorkers_def worker_empty)
  have "allSome (map Some ?ws) = Some ?ws"
    by (simp add: allSome_def list_all_iff comp_def)
  moreover have "bestCore (reduce (map bestFrIter ?ws)) = None"
    unfolding reduce_None by (simp add: newDrawing_def)
  ultimately show ?thesis unfolding phase2Iter_def rw by (simp add: Let_def)
qed

lemma phase2_no_batches:
  assumes "\<forall>b<jobs. batches ! b = []"
  shows "phase2 deps drawFn cg maxGrDist restrLocSearch batches 0 st = Inl UndefinedBehaviour"
  by (subst phase2.simps) (simp add: ITERS_def phase2Iter_no_batches [OF assms])

lemma fold_addToBatch_deg0:
  "\<forall>nd \<in> set nds. getDeg cg nd = 0 \<Longrightarrow> fold (addToBatch cg) nds st = st"
  by (induction nds arbitrary: st) (simp_all add: addToBatch_def Let_def)

lemma mkBatches_deg0:
  "\<forall>nd \<in> set (getNds cg). getDeg cg nd = 0 \<Longrightarrow> mkBatches cg = replicate jobs []"
  by (simp add: mkBatches_def fold_addToBatch_deg0)

lemma phase1_empty_order:
  "phase1 deps (drawFnOf rdeps cg maxGrDist gp) cg [] 0 st
   = Inr (afterFoundTry deps cg [] 0 st (ggsOf st ! 0) (drawingOf st), 1)"
  by (subst phase1.simps) (simp add: tries_def tryDraw_def iterOrderOf_def drawFnOf_def)





lemma fold_ignore [simp]: "fold (\<lambda>x s. s) xs s = s"
  by (induction xs) simp_all

lemma fold_pair_ignore [simp]: "fold (\<lambda>x st. (fst st, snd st)) xs st = st"
  by (induction xs) simp_all









text \<open>
  C8 on the code: for the empty graph the order is empty, the first try of Phase 1
  succeeds without routing anything, the four batches of Phase 2 are empty, no worker's
  score is below infinity, and \<^verbatim>\<open>bestFrIters[bestCore]\<close> reads \<^verbatim>\<open>bestCore\<close>, which
  was never assigned.
\<close>

theorem draw_empty_graph:
  "draw deps rdeps [] maxGrDist restrLocSearch enfGeoPen obstacles seed = Inl UndefinedBehaviour"
proof -
  have ord: "suOrder (drawSetup deps [] enfGeoPen obstacles seed) = []"
    by (simp add: drawSetup_def Let_def getOrdering_empty)
  have b: "\<forall>b<jobs. mkBatches [] ! b = []"
    by (simp add: mkBatches_deg0 getNds_def)
  show ?thesis
    unfolding draw_def Let_def ord phase1_empty_order
    by (simp add: phase2_no_batches [OF b])
qed

section \<open>Contracting short edges: one pass\<close>

text \<open>
  A pass that finds no edge to contract ends the function; a pass that finds one
  merges its two ends and starts over. Whether the passes come to an end is a question
  about \<^verbatim>\<open>mergeNds\<close>.
\<close>

lemma find_Some_mem: "find P xs = Some x \<Longrightarrow> x \<in> set xs \<and> P x"
  by (induction xs) (auto split: if_splits)

lemma findShort_Some:
  "findShort g d = Some (n1, e1) \<Longrightarrow>
   n1 \<in> set (lgNds g) \<and> e1 \<in> set (lgAdjList g n1) \<and> contractible g d (n1, e1)"
  unfolding findShort_def by (drule find_Some_mem) auto

lemma removeEdgesShorterThan_no_short:
  "findShort g d = None \<Longrightarrow> removeEdgesShorterThan mergeNds servedLines g d = Some (g, 0)"
  by (simp add: removeEdgesShorterThan_def removeLoop.simps)

lemma removeLoop_restart:
  "findShort g d = Some (n1, e1) \<Longrightarrow>
   removeLoop mergeNds servedLines d g restarts
   = removeLoop mergeNds servedLines d (mergeShort mergeNds servedLines g n1 e1) (restarts + 1)"
  by (subst removeLoop.simps) simp

section \<open>The optimizer of a component\<close>

text \<open>
  C6, as stated: the exhaustive optimizer is chosen if and only if the maximum cardinality
  exceeds 1 and the solution space is below 10. The statement fails on a component whose
  edges carry no line (or that has no edge): its maximum cardinality is 0, its solution
  space 1, and the code, which only tests \<^verbatim>\<open>maxC == 1\<close>, hands it to the exhaustive
  optimizer.
\<close>

theorem optimizeComp_exhaustive_card0:
  "optimizeComp maxCard solutionSpaceSize ([] :: nat list list) = ExhausOpt
   \<and> \<not> (maxCard ([] :: nat list list) > 1 \<and> solutionSpaceSize ([] :: nat list list) < 10)"
  by (simp add: optimizeComp_def maxCard_def solutionSpaceSize_def)

text \<open>
  C6, amended: exactly one optimizer is called; the trivial one if and only if the maximum
  cardinality is 1, the exhaustive one if and only if the maximum cardinality is not 1 and
  the solution space is strictly below 10, the ILP one if and only if the maximum
  cardinality is not 1 and the solution space is not below 10.
\<close>

theorem optimizeComp_dispatch:
  "(optimizeComp mc ss g = NullOpt) = (mc g = 1)
   \<and> (optimizeComp mc ss g = ExhausOpt) = (mc g \<noteq> 1 \<and> ss g < 10)
   \<and> (optimizeComp mc ss g = IlpOpt) = (mc g \<noteq> 1 \<and> \<not> ss g < 10)"
  by (simp add: optimizeComp_def Let_def)

section \<open>The crossing score\<close>

lemma partnerStep_exact:
  "partnerStep deps n c ea lp eb st = Some st1 \<Longrightarrow>
   st1 = (if eb \<notin> proced st lp \<and> crosses deps n ea eb (posesOf c ea eb lp)
          then st\<lparr>sameSegCrossings := sameSegCrossings st + 1\<rparr> else st)"
  by (auto simp: partnerStep_def posesOf_def Let_def split: if_splits option.splits)

lemma partner_loop:
  "foldOpt (partnerStep deps n c ea lp) ebs st = Some st' \<Longrightarrow>
   sameSegCrossings st' = sameSegCrossings st
      + length (filter (\<lambda>eb. eb \<notin> proced st lp \<and> crosses deps n ea eb (posesOf c ea eb lp)) ebs)
   \<and> proced st' = proced st \<and> diffSegCrossings st' = diffSegCrossings st"
proof (induction ebs arbitrary: st)
  case Nil
  then show ?case by simp
next
  case (Cons eb ebs)
  from Cons.prems obtain st1 where
    s1: "partnerStep deps n c ea lp eb st = Some st1"
    and rest: "foldOpt (partnerStep deps n c ea lp) ebs st1 = Some st'"
    by (auto split: option.splits)
  note e = partnerStep_exact [OF s1]
  have p1: "proced st1 = proced st" "diffSegCrossings st1 = diffSegCrossings st"
    by (simp_all add: e)
  from Cons.IH [OF rest] show ?case unfolding p1 by (simp add: e)
qed

lemma partnerPairStep_exact:
  "partnerPairStep deps n c ea lp ebc st = Some st1 \<Longrightarrow>
   st1 = (if crossesPair deps n ea ebc (posOf c ea lp)
          then st\<lparr>diffSegCrossings := diffSegCrossings st + 1\<rparr> else st)"
  by (auto simp: partnerPairStep_def posOf_def Let_def split: if_splits option.splits)

lemma partnerPair_loop:
  "foldOpt (partnerPairStep deps n c ea lp) xs st = Some st' \<Longrightarrow>
   diffSegCrossings st' = diffSegCrossings st
      + length (filter (\<lambda>ebc. crossesPair deps n ea ebc (posOf c ea lp)) xs)
   \<and> sameSegCrossings st' = sameSegCrossings st \<and> proced st' = proced st"
proof (induction xs arbitrary: st)
  case Nil
  then show ?case by simp
next
  case (Cons x xs)
  from Cons.prems obtain st1 where
    s1: "partnerPairStep deps n c ea lp x st = Some st1"
    and rest: "foldOpt (partnerPairStep deps n c ea lp) xs st1 = Some st'"
    by (auto split: option.splits)
  note e = partnerPairStep_exact [OF s1]
  have p1: "proced st1 = proced st" "sameSegCrossings st1 = sameSegCrossings st"
    by (simp_all add: e)
  from Cons.IH [OF rest] show ?case unfolding p1 by (simp add: e)
qed

lemma linePairStep_exact:
  assumes "linePairStep deps n c ea lp st = Some st1"
    and "proced st lp - {ea} = procedBy deps seen lp - {ea}"
  shows "sameSegCrossings st1 = sameSegCrossings st + length (sameSegAt deps n c seen ea lp)
         \<and> diffSegCrossings st1 = diffSegCrossings st + length (diffSegAt deps n c ea lp)
         \<and> proced st1 = (proced st)(lp := insert ea (proced st lp))"
proof -
  let ?st0 = "st\<lparr>proced := (proced st)(lp := insert ea (proced st lp))\<rparr>"
  from assms(1) obtain stp where
    p1: "foldOpt (partnerStep deps n c ea lp) (getEdgePartners deps n ea lp) ?st0 = Some stp"
    and p2: "foldOpt (partnerPairStep deps n c ea lp) (getEdgePartnerPairs deps n ea lp) stp = Some st1"
    by (auto simp: linePairStep_def Let_def split: option.splits)
  have mem: "eb \<notin> proced ?st0 lp \<longleftrightarrow> eb \<noteq> ea \<and> eb \<notin> procedBy deps seen lp" for eb
    using assms(2) by auto
  have f: "filter (\<lambda>eb. eb \<notin> proced ?st0 lp \<and> crosses deps n ea eb (posesOf c ea eb lp))
             (getEdgePartners deps n ea lp) = sameSegAt deps n c seen ea lp"
    unfolding sameSegAt_def mem by (rule filter_cong) auto
  from partner_loop [OF p1] partnerPair_loop [OF p2] show ?thesis
    unfolding f by (simp add: diffSegAt_def)
qed

lemma linePair_loop:
  assumes "foldOpt (linePairStep deps n c ea) lps st = Some st'"
    and "\<forall>l. proced st l - {ea} = procedBy deps seen l - {ea}"
  shows "sameSegCrossings st' = sameSegCrossings st
            + length (concat (map (\<lambda>lp. map (\<lambda>eb. (lp, {ea, eb})) (sameSegAt deps n c seen ea lp)) lps))
         \<and> diffSegCrossings st' = diffSegCrossings st
            + length (concat (map (\<lambda>lp. map (\<lambda>ebc. (lp, ea, ebc)) (diffSegAt deps n c ea lp)) lps))
         \<and> (\<forall>l. proced st' l = proced st l \<union> (if l \<in> set lps then {ea} else {}))"
  using assms
proof (induction lps arbitrary: st)
  case Nil
  then show ?case by simp
next
  case (Cons lp lps)
  from Cons.prems(1) obtain st1 where
    s1: "linePairStep deps n c ea lp st = Some st1"
    and rest: "foldOpt (linePairStep deps n c ea) lps st1 = Some st'"
    by (auto split: option.splits)
  from linePairStep_exact [OF s1 Cons.prems(2) [rule_format]]
  have c1: "sameSegCrossings st1 = sameSegCrossings st + length (sameSegAt deps n c seen ea lp)"
    and d1: "diffSegCrossings st1 = diffSegCrossings st + length (diffSegAt deps n c ea lp)"
    and p1: "proced st1 = (proced st)(lp := insert ea (proced st lp))"
    by simp_all
  have inv1: "\<forall>l. proced st1 l - {ea} = procedBy deps seen l - {ea}"
    using Cons.prems(2) unfolding p1 by auto
  from Cons.IH [OF rest inv1] show ?case unfolding c1 d1 p1 by auto
qed

lemma procedBy_snoc:
  "procedBy deps (seen @ [ea]) l
   = procedBy deps seen l \<union> (if l \<in> set (getLinePairs deps ea True) then {ea} else {})"
  by (auto simp: procedBy_def)

lemma edge_loop:
  assumes "foldOpt (edgeStep deps n c) es st = Some st'"
    and "\<forall>l. proced st l = procedBy deps seen l"
  shows "sameSegCrossings st' = sameSegCrossings st + length (sameSegList deps n c seen es)
         \<and> diffSegCrossings st' = diffSegCrossings st + length (diffSegList deps n c es)"
  using assms
proof (induction es arbitrary: st seen)
  case Nil
  then show ?case by (simp add: diffSegList_def)
next
  case (Cons ea es)
  from Cons.prems(1) obtain st1 where
    s00: "edgeStep deps n c ea st = Some st1"
    and rest: "foldOpt (edgeStep deps n c) es st1 = Some st'"
    by (auto split: option.splits)
  from s00 have
    s0: "foldOpt (linePairStep deps n c ea) (getLinePairs deps ea True) st = Some st1"
    by (simp add: edgeStep_def)
  have inv0: "\<forall>l. proced st l - {ea} = procedBy deps seen l - {ea}"
    using Cons.prems(2) by simp
  from linePair_loop [OF s0 inv0]
  have c1: "sameSegCrossings st1 = sameSegCrossings st
       + length (concat (map (\<lambda>lp. map (\<lambda>eb. (lp, {ea, eb})) (sameSegAt deps n c seen ea lp))
                          (getLinePairs deps ea True)))"
    and d1: "diffSegCrossings st1 = diffSegCrossings st
       + length (concat (map (\<lambda>lp. map (\<lambda>ebc. (lp, ea, ebc)) (diffSegAt deps n c ea lp))
                          (getLinePairs deps ea True)))"
    and p1: "\<forall>l. proced st1 l = proced st l \<union> (if l \<in> set (getLinePairs deps ea True) then {ea} else {})"
    by simp_all
  have inv1: "\<forall>l. proced st1 l = procedBy deps (seen @ [ea]) l"
    using p1 Cons.prems(2) by (simp add: procedBy_snoc)
  from Cons.IH [OF rest inv1] show ?case unfolding c1 d1 by (simp add: diffSegList_def)
qed

lemma getNumCrossings_exact:
  assumes "getNumCrossings deps n c = Some (same, diff)"
  shows "same = length (sameSegList deps n c [] (optAdjList n))
         \<and> diff = length (diffSegList deps n c (optAdjList n))"
proof -
  let ?init = "\<lparr>sameSegCrossings = 0, diffSegCrossings = 0, proced = (\<lambda>lp. {})\<rparr>"
  from assms obtain st where
    run: "foldOpt (edgeStep deps n c) (optAdjList n) ?init = Some st"
    and same: "same = sameSegCrossings st" and diff: "diff = diffSegCrossings st"
    by (auto simp: getNumCrossings_def)
  have "\<forall>l. proced ?init l = procedBy deps [] l" by (simp add: procedBy_def)
  from edge_loop [OF run this] show ?thesis using same diff by simp
qed

lemma foldOpt_Some:
  assumes "\<And>x s. x \<in> set xs \<Longrightarrow> f x s \<noteq> None"
  shows "foldOpt f xs s \<noteq> None"
  using assms by (induction xs arbitrary: s) (auto split: option.splits)

lemma getNumCrossings_Some:
  assumes "cfgHas deps n c"
  shows "getNumCrossings deps n c \<noteq> None"
proof -
  have "edgeStep deps n c ea s \<noteq> None" if ea: "ea \<in> set (optAdjList n)" for ea s
    unfolding edgeStep_def
  proof (rule foldOpt_Some)
    fix lp s assume lp: "lp \<in> set (getLinePairs deps ea True)"
    have a: "foldOpt (partnerStep deps n c ea lp) (getEdgePartners deps n ea lp) s0 \<noteq> None" for s0
    proof (rule foldOpt_Some)
      fix eb s1 assume "eb \<in> set (getEdgePartners deps n ea lp)"
      then have "c ea \<noteq> None" "c eb \<noteq> None" using assms ea lp by (auto simp: cfgHas_def)
      then show "partnerStep deps n c ea lp eb s1 \<noteq> None"
        by (auto simp: partnerStep_def Let_def)
    qed
    have b: "foldOpt (partnerPairStep deps n c ea lp) (getEdgePartnerPairs deps n ea lp) s0 \<noteq> None"
      for s0
    proof (rule foldOpt_Some)
      fix x s1
      have "c ea \<noteq> None" using assms ea by (auto simp: cfgHas_def)
      then show "partnerPairStep deps n c ea lp x s1 \<noteq> None"
        by (auto simp: partnerPairStep_def Let_def)
    qed
    show "linePairStep deps n c ea lp s \<noteq> None"
      using a b by (auto simp: linePairStep_def Let_def split: option.splits)
  qed
  then have "foldOpt (edgeStep deps n c) (optAdjList n) s \<noteq> None" for s
    by (intro foldOpt_Some)
  then show ?thesis by (simp add: getNumCrossings_def)
qed

lemma sameSegList_mem:
  "k \<in> set (sameSegList deps n c seen es) \<Longrightarrow>
   \<exists>ea lp eb. k = (lp, {ea, eb}) \<and> ea \<in> set es \<and> lp \<in> set (getLinePairs deps ea True)
      \<and> eb \<in> set (getEdgePartners deps n ea lp) \<and> eb \<noteq> ea \<and> eb \<notin> procedBy deps seen lp"
proof (induction es arbitrary: seen)
  case Nil
  then show ?case by simp
next
  case (Cons ea es)
  from Cons.prems consider
    (hd) "k \<in> set (concat (map (\<lambda>lp. map (\<lambda>eb. (lp, {ea, eb})) (sameSegAt deps n c seen ea lp))
                              (getLinePairs deps ea True)))"
    | (tl) "k \<in> set (sameSegList deps n c (seen @ [ea]) es)"
    by auto
  then show ?case
  proof cases
    case hd
    then obtain lp eb where "lp \<in> set (getLinePairs deps ea True)"
      "eb \<in> set (sameSegAt deps n c seen ea lp)" "k = (lp, {ea, eb})"
      by auto
    then show ?thesis by (auto simp: sameSegAt_def)
  next
    case tl
    from Cons.IH [OF tl] obtain a lp eb where
      k: "k = (lp, {a, eb})" "a \<in> set es" "lp \<in> set (getLinePairs deps a True)"
      "eb \<in> set (getEdgePartners deps n a lp)" "eb \<noteq> a" "eb \<notin> procedBy deps (seen @ [ea]) lp"
      by blast
    from k(6) have "eb \<notin> procedBy deps seen lp" by (simp add: procedBy_snoc)
    with k show ?thesis by auto
  qed
qed

lemma sameSegList_keys: "set (sameSegList deps n c [] es) \<subseteq> keysOf deps n es"
proof
  fix k assume "k \<in> set (sameSegList deps n c [] es)"
  from sameSegList_mem [OF this] show "k \<in> keysOf deps n es"
    by (auto simp: keysOf_def)
qed

lemma distinct_concat_tagged:
  assumes "distinct xs" "\<And>x. x \<in> set xs \<Longrightarrow> distinct (g x)"
    and "\<And>x k. x \<in> set xs \<Longrightarrow> k \<in> set (g x) \<Longrightarrow> fst k = x"
  shows "distinct (concat (map g xs))"
  using assms
proof (induction xs)
  case Nil
  then show ?case by simp
next
  case (Cons x xs)
  have "set (g x) \<inter> set (concat (map g xs)) = {}"
  proof (rule ccontr)
    assume "set (g x) \<inter> set (concat (map g xs)) \<noteq> {}"
    then obtain k y where "k \<in> set (g x)" "y \<in> set xs" "k \<in> set (g y)" by auto
    then have "fst k = x" "fst k = y" using Cons.prems(3) by auto
    then show False using \<open>y \<in> set xs\<close> Cons.prems(1) by auto
  qed
  moreover have "distinct (concat (map g xs))"
    using Cons.prems by (intro Cons.IH) auto
  ultimately show ?case using Cons.prems(2) by simp
qed

lemma sameSegAt_keys_distinct:
  assumes "distinct (getEdgePartners deps n ea lp)"
  shows "distinct (map (\<lambda>eb. (lp, {ea, eb})) (sameSegAt deps n c seen ea lp))"
proof -
  have "inj_on (\<lambda>eb. (lp, {ea, eb})) A" for A
    by (rule inj_onI) (auto simp: doubleton_eq_iff)
  moreover have "distinct (sameSegAt deps n c seen ea lp)"
    using assms by (simp add: sameSegAt_def)
  ultimately show ?thesis by (simp add: distinct_map)
qed

lemma sameSegList_distinct:
  assumes "distinct es"
    and "\<forall>ea \<in> set es. distinct (getLinePairs deps ea True)
           \<and> (\<forall>lp \<in> set (getLinePairs deps ea True). distinct (getEdgePartners deps n ea lp))"
  shows "distinct (sameSegList deps n c seen es)"
  using assms
proof (induction es arbitrary: seen)
  case Nil
  then show ?case by simp
next
  case (Cons ea es)
  let ?hd = "concat (map (\<lambda>lp. map (\<lambda>eb. (lp, {ea, eb})) (sameSegAt deps n c seen ea lp))
                      (getLinePairs deps ea True))"
  have dh: "distinct ?hd"
  proof (rule distinct_concat_tagged)
    show "distinct (getLinePairs deps ea True)" using Cons.prems(2) by simp
  next
    fix lp assume "lp \<in> set (getLinePairs deps ea True)"
    then have "distinct (getEdgePartners deps n ea lp)" using Cons.prems(2) by simp
    then show "distinct (map (\<lambda>eb. (lp, {ea, eb})) (sameSegAt deps n c seen ea lp))"
      by (rule sameSegAt_keys_distinct)
  next
    fix lp k assume "k \<in> set (map (\<lambda>eb. (lp, {ea, eb})) (sameSegAt deps n c seen ea lp))"
    then show "fst k = lp" by auto
  qed
  have dt: "distinct (sameSegList deps n c (seen @ [ea]) es)"
    using Cons.prems by (intro Cons.IH) auto
  have disj: "set ?hd \<inter> set (sameSegList deps n c (seen @ [ea]) es) = {}"
  proof -
    have False if kh: "k \<in> set ?hd" and kt: "k \<in> set (sameSegList deps n c (seen @ [ea]) es)" for k
    proof -
    from kh obtain lp eb where h: "lp \<in> set (getLinePairs deps ea True)" "k = (lp, {ea, eb})"
      by auto
    from sameSegList_mem [OF kt] obtain a lp' eb' where
      t: "k = (lp', {a, eb'})" "a \<in> set es" "eb' \<notin> procedBy deps (seen @ [ea]) lp'"
      by blast
    have "a \<noteq> ea" using t(2) Cons.prems(1) by auto
    moreover have "lp' = lp" "{ea, eb} = {a, eb'}" using h(2) t(1) by auto
    ultimately have "eb' = ea" by (auto simp: doubleton_eq_iff)
    then show False using t(3) h(1) \<open>lp' = lp\<close> by (simp add: procedBy_snoc)
    qed
    then show ?thesis by blast
  qed
  show ?case using dh dt disj by simp
qed

lemma getNumCrossings_example: "getNumCrossings optimE nodeE cfgE = Some (1, 1)"
  by (simp add: getNumCrossings_def edgeStep_def linePairStep_def partnerStep_def
      partnerPairStep_def optimE_def nodeE_def cfgE_def Let_def)

lemma getNumCrossings_dup_adj: "getNumCrossings optimE nodeDup cfgE = Some (2, 2)"
  by (simp add: getNumCrossings_def edgeStep_def linePairStep_def partnerStep_def
      partnerPairStep_def optimE_def nodeDup_def cfgE_def Let_def)

lemma getNumCrossings_dup_lp: "getNumCrossings optimDupLp nodeE cfgE = Some (2, 2)"
  by (simp add: getNumCrossings_def edgeStep_def linePairStep_def partnerStep_def
      partnerPairStep_def optimDupLp_def optimE_def nodeE_def cfgE_def Let_def)

lemma getNumCrossings_dup_partner: "getNumCrossings optimDupPartner nodeE cfgE = Some (2, 1)"
  by (simp add: getNumCrossings_def edgeStep_def linePairStep_def partnerStep_def
      partnerPairStep_def optimDupPartner_def optimE_def nodeE_def cfgE_def Let_def)

lemma keysOf_example:
  "keysOf optimE nodeDup (optAdjList nodeDup) = {((1, 2), {0, 1})}"
  "keysOf optimDupLp nodeE (optAdjList nodeE) = {((1, 2), {0, 1})}"
  "keysOf optimDupPartner nodeE (optAdjList nodeE) = {((1, 2), {0, 1})}"
  by (auto simp: keysOf_def optimE_def optimDupLp_def optimDupPartner_def nodeE_def nodeDup_def
      split: if_splits)

text \<open>
  C7, as stated, fails. The processed set only keeps a pair of edges from being counted
  again from its second edge. With an edge twice in the adjacency list, with a line pair
  twice among the line pairs of an edge, or with a partner twice among the partners of an
  edge, the one pair of the edges 0 and 1 contributes two same-segment crossings of the
  line pair (1, 2). And for a configuration without an entry for an edge that is looked
  up, \<^verbatim>\<open>c.at\<close> throws and there is no score.
\<close>

theorem getNumCrossings_counts_pair_twice:
  "getNumCrossings optimE nodeDup cfgE = Some (2, 2)
   \<and> keysOf optimE nodeDup (optAdjList nodeDup) = {((1, 2), {0, 1})}
   \<and> getNumCrossings optimDupLp nodeE cfgE = Some (2, 2)
   \<and> keysOf optimDupLp nodeE (optAdjList nodeE) = {((1, 2), {0, 1})}
   \<and> getNumCrossings optimDupPartner nodeE cfgE = Some (2, 1)
   \<and> keysOf optimDupPartner nodeE (optAdjList nodeE) = {((1, 2), {0, 1})}
   \<and> getCrossingScore optimE nodeE Map.empty = None"
  unfolding getNumCrossings_dup_adj getNumCrossings_dup_lp getNumCrossings_dup_partner keysOf_example
  by (simp add: getCrossingScore_def getNumCrossings_def edgeStep_def linePairStep_def
      partnerStep_def optimE_def nodeE_def Let_def)

text \<open>
  C7, amended: the crossing score of a node without a topological node is 0. The count
  returns whenever the configuration has an entry for every edge it looks up. Whenever
  it returns for a node with a topological node, the score is the number of same-segment
  crossings times the same-segment penalty plus the number of different-segment
  crossings times the different-segment penalty of that node (each operation rounded),
  and the two numbers are the numbers of the crossings at the node: same-segment
  crossings of a line pair between an adjacent edge and a partner that was not processed
  before, different-segment crossings between an adjacent edge and a partner pair. Every
  same-segment crossing belongs to a pair (line pair, unordered pair of an adjacent edge
  and a partner), and when the adjacency list, the line pairs of each edge and the
  partners of each edge hold nothing twice, no such pair contributes more than one.
\<close>

theorem getCrossingScore_counts:
  "(plNode n = None \<longrightarrow> getCrossingScore deps n c = Some 0)
   \<and> (cfgHas deps n c \<longrightarrow> (\<exists>same diff. getNumCrossings deps n c = Some (same, diff)))
   \<and> (\<forall>nd same diff. plNode n = Some nd \<and> getNumCrossings deps n c = Some (same, diff) \<longrightarrow>
          getCrossingScore deps n c
            = Some (flOpt deps
                      (flOpt deps (flOpt deps (real same) * getCrossingPenaltySameSeg deps nd)
                       + flOpt deps (flOpt deps (real diff) * getCrossingPenaltyDiffSeg deps nd)))
          \<and> same = length (sameSegList deps n c [] (optAdjList n))
          \<and> diff = length (diffSegList deps n c (optAdjList n)))
   \<and> set (sameSegList deps n c [] (optAdjList n)) \<subseteq> keysOf deps n (optAdjList n)
   \<and> (uniqueLists deps n \<longrightarrow> distinct (sameSegList deps n c [] (optAdjList n)))"
proof -
  have a: "\<exists>same diff. getNumCrossings deps n c = Some (same, diff)" if "cfgHas deps n c"
    using getNumCrossings_Some [OF that] by auto
  have b: "getCrossingScore deps n c
            = Some (flOpt deps
                      (flOpt deps (flOpt deps (real same) * getCrossingPenaltySameSeg deps nd)
                       + flOpt deps (flOpt deps (real diff) * getCrossingPenaltyDiffSeg deps nd)))
          \<and> same = length (sameSegList deps n c [] (optAdjList n))
          \<and> diff = length (diffSegList deps n c (optAdjList n))"
    if "plNode n = Some nd" "getNumCrossings deps n c = Some (same, diff)" for nd same diff
    using that getNumCrossings_exact [OF that(2)] by (simp add: getCrossingScore_def)
  have d: "distinct (sameSegList deps n c [] (optAdjList n))" if "uniqueLists deps n"
    using that by (intro sameSegList_distinct) (simp_all add: uniqueLists_def)
  have z: "getCrossingScore deps n c = Some 0" if "plNode n = None"
    using that by (simp add: getCrossingScore_def)
  show ?thesis using a b d z sameSegList_keys [of deps n c "optAdjList n"] by blast
qed

theorem getCrossingScore_counts_witness:
  "getCrossingScore optimE nodeE cfgE = Some 5
   \<and> length (sameSegList optimE nodeE cfgE [] (optAdjList nodeE)) = 1
   \<and> length (diffSegList optimE nodeE cfgE (optAdjList nodeE)) = 1
   \<and> distinct (sameSegList optimE nodeE cfgE [] (optAdjList nodeE))"
proof -
  have u: "uniqueLists optimE nodeE"
    by (simp add: uniqueLists_def optimE_def nodeE_def)
  have p: "plNode nodeE = Some 0" by (simp add: nodeE_def)
  have pen: "getCrossingPenaltySameSeg optimE 0 = 4" "getCrossingPenaltyDiffSeg optimE 0 = 1"
    "flOpt optimE x = x" for x
    by (simp_all add: optimE_def)
  from getCrossingScore_counts [of nodeE optimE cfgE] u p getNumCrossings_example
  have "getCrossingScore optimE nodeE cfgE
          = Some (flOpt optimE
                    (flOpt optimE (flOpt optimE (real 1) * getCrossingPenaltySameSeg optimE 0)
                     + flOpt optimE (flOpt optimE (real 1) * getCrossingPenaltyDiffSeg optimE 0)))
        \<and> 1 = length (sameSegList optimE nodeE cfgE [] (optAdjList nodeE))
        \<and> 1 = length (diffSegList optimE nodeE cfgE (optAdjList nodeE))"
    and "distinct (sameSegList optimE nodeE cfgE [] (optAdjList nodeE))"
    by blast+
  then show ?thesis unfolding pen by simp
qed

section \<open>The GLPK wrapper\<close>

text \<open>
  C10 evaluated on the code: the first variable and the first constraint both get the
  zero-based index 0, \<^verbatim>\<open>getVarByName\<close> returns 0 for that variable, and
  \<^verbatim>\<open>assert(col)\<close> aborts.
\<close>

theorem addColToRow_first_aborts:
  "(let (c, s1) = addCol ''x'' BIN 1 newSolver;
        (r, s2) = addRow ''r'' 0 FIX s1
    in (c, r, getVarByName s2 ''x'', addColToRow ''r'' ''x'' 1 s2))
   = (0, 0, 0, Inl AssertCol)"
  by (simp add: addCol_def addRow_def newSolver_def getVarByName_def addColToRow_def
      getConstrByName_def)

text \<open>
  Past the assertions the indices arrive swapped: for the second variable and the third
  constraint the matrix entry is written to row 2, column 3.
\<close>

lemma addColToRow_swaps_indices:
  "(let s = \<lparr>cols = [(''x0'', BIN, 0), (''x1'', BIN, 0)],
              rows = [(''r0'', FIX, 0), (''r1'', FIX, 0), (''r2'', FIX, 0)],
              vm = \<lparr>rowNum = [], colNum = [], vals = []\<rparr>\<rparr>
    in map_sum id vm (addColToRow ''r2'' ''x1'' 5 s))
   = Inr \<lparr>rowNum = [2], colNum = [3], vals = [5]\<rparr>"
  by (simp add: addColToRow_def getVarByName_def getConstrByName_def addColToRowIdx_def
      addVar_def)

end
